theory Spec2Isabelle
  imports Main
begin

section \<open>The API gateway: service registry, health prober, proxy observers\<close>

text \<open>
  The development embeds the class \<open>APIGateway\<close> of \<open>src/api-gateway/gateway.js\<close>.
  The gateway keeps one mutable structure, the JavaScript \<open>Map\<close> \<open>this.services\<close>, from a
  service identifier to a descriptor object. Everything that happens to it is written here as
  a function from the registry before to the registry after.

  What the code reads from its platform is a parameter of the model: the clock
  (\<open>new Date().toISOString()\<close>, \<open>Date.now()\<close>), the request identifier (\<open>uuid.v4()\<close>),
  \<open>process.uptime()\<close>, and what the network does to a health probe or to a forwarded request.
\<close>

subsection \<open>Descriptors and the registry\<close>

text \<open>
  A descriptor is the object literal of \<open>registerServices\<close>. The status is the JavaScript
  string the code stores, and \<open>null\<close> is \<open>None\<close>.
\<close>

record service =
  name :: string
  url :: string
  health :: string
  routes :: "string list"
  status :: string
  lastHealthCheck :: "string option"
  responseTime :: "string option"

text \<open>
  A \<open>Map\<close> iterates in insertion order and holds each key once: an association list, whose
  keys are distinct in every state the gateway builds (\<open>wf_registry\<close>).
\<close>

type_synonym registry = "(string \<times> service) list"

definition wf_registry :: "registry \<Rightarrow> bool" where
  "wf_registry reg = distinct (map fst reg)"

text \<open>
  Storing under a key, as \<open>Map.prototype.set\<close> and the property assignment \<open>obj[k] = v\<close>
  both do: an existing key keeps its place and takes the new value, a new key goes last.
\<close>

primrec assign :: "'k \<Rightarrow> 'v \<Rightarrow> ('k \<times> 'v) list \<Rightarrow> ('k \<times> 'v) list" where
  "assign k v [] = [(k, v)]"
| "assign k v (p # ps) = (if fst p = k then (k, v) # ps else p # assign k v ps)"

definition services_set :: "string \<Rightarrow> service \<Rightarrow> registry \<Rightarrow> registry" where
  "services_set k v reg = assign k v reg"

text \<open>\<open>Map.prototype.get\<close>, with \<open>undefined\<close> as \<open>None\<close>.\<close>

definition services_get :: "registry \<Rightarrow> string \<Rightarrow> service option" where
  "services_get reg k = map_of reg k"

definition services_keys :: "registry \<Rightarrow> string list" where
  "services_keys reg = map fst reg"

definition services_values :: "registry \<Rightarrow> service list" where
  "services_values reg = map snd reg"

text \<open>
  The code never replaces a descriptor: it fetches the object with \<open>get\<close> and assigns to its
  fields. \<open>mutate k f\<close> is that assignment, seen from the map: the entry of \<open>k\<close> becomes
  \<open>f\<close> of what it was, every other entry and the order stay.
\<close>

primrec mutate :: "string \<Rightarrow> (service \<Rightarrow> service) \<Rightarrow> registry \<Rightarrow> registry" where
  "mutate k f [] = []"
| "mutate k f (p # ps) = (if fst p = k then (k, f (snd p)) # ps else p # mutate k f ps)"

definition registerServices :: "registry \<Rightarrow> registry" where
  "registerServices m =
     services_set ''order-service''
       \<lparr>name = ''Order Service'', url = ''http://localhost:3004'',
        health = ''http://localhost:3004/health'', routes = [''/api/orders''],
        status = ''unknown'', lastHealthCheck = None, responseTime = None\<rparr>
     (services_set ''product-service''
       \<lparr>name = ''Product Service'', url = ''http://localhost:3003'',
        health = ''http://localhost:3003/health'', routes = [''/api/products''],
        status = ''unknown'', lastHealthCheck = None, responseTime = None\<rparr>
     (services_set ''user-service''
       \<lparr>name = ''User Service'', url = ''http://localhost:3002'',
        health = ''http://localhost:3002/health'', routes = [''/api/users'', ''/api/auth''],
        status = ''unknown'', lastHealthCheck = None, responseTime = None\<rparr>
      m))"

text \<open>The constructor starts from \<open>new Map()\<close>.\<close>

definition initial_registry :: registry where
  "initial_registry = registerServices []"

subsection \<open>The health prober\<close>

text \<open>
  \<open>`${responseTime}ms`\<close> prints an integer number of milliseconds in decimal. (JavaScript
  switches to exponent notation from \<open>1e21\<close> on; a difference of two \<open>Date.now()\<close> readings
  is far below.)
\<close>

fun nat_digits :: "nat \<Rightarrow> string" where
  "nat_digits n =
     (if n < 10 then [''0123456789'' ! n]
      else nat_digits (n div 10) @ [''0123456789'' ! (n mod 10)])"

definition number_string :: "int \<Rightarrow> string" where
  "number_string i = (if i < 0 then ''-'' @ nat_digits (nat (- i)) else nat_digits (nat i))"

text \<open>
  What the network does to one probe: an HTTP response with a status arrives within the
  5000 ms bound, or nothing usable does (refused connection, reset, timeout).
\<close>

datatype probe_outcome = HttpStatus nat | NoResponse

datatype 'a settled = Resolved 'a | Rejected

text \<open>
  \<open>axios.get(url, {timeout, validateStatus})\<close> is a library call. Its contract: the promise
  resolves with the response when \<open>validateStatus\<close> accepts the status and rejects otherwise,
  and it rejects when no response arrives.
\<close>

definition axios_get :: "(nat \<Rightarrow> bool) \<Rightarrow> probe_outcome \<Rightarrow> nat settled" where
  "axios_get validateStatus outcome =
     (case outcome of
        HttpStatus st \<Rightarrow> if validateStatus st then Resolved st else Rejected
      | NoResponse \<Rightarrow> Rejected)"

text \<open>
  One completed run of \<open>checkServiceHealth\<close>. The function is \<open>async\<close>: it suspends at the
  \<open>await\<close> and writes all three fields in one uninterrupted block when the promise settles,
  so a run is one step of the registry. \<open>elapsed\<close> is \<open>Date.now() - start\<close>, \<open>now\<close> is the
  \<open>toISOString()\<close> reading at the write.
\<close>

record probe =
  outcome :: probe_outcome
  elapsed :: int
  now :: string

definition checkServiceHealth :: "string \<Rightarrow> probe \<Rightarrow> registry \<Rightarrow> registry" where
  "checkServiceHealth serviceKey p reg =
     (case services_get reg serviceKey of
        None \<Rightarrow> reg
      | Some service \<Rightarrow>
          (case axios_get (\<lambda>status. status < 500) (outcome p) of
             Resolved response_status \<Rightarrow>
               mutate serviceKey
                 (\<lambda>s. s\<lparr>status := (if response_status = 200 then ''healthy'' else ''unhealthy''),
                        lastHealthCheck := Some (now p),
                        responseTime := Some (number_string (elapsed p) @ ''ms'')\<rparr>) reg
           | Rejected \<Rightarrow>
               mutate serviceKey
                 (\<lambda>s. s\<lparr>status := ''unhealthy'',
                        lastHealthCheck := Some (now p),
                        responseTime := Some ''timeout''\<rparr>) reg))"

subsection \<open>Requests, responses and JSON bodies\<close>

text \<open>
  A body built with \<open>res.json\<close> is a JSON value. An object is the list of its properties in
  the order the code assigns them; the theorems below read objects by key only. A property
  whose value is \<open>undefined\<close> is left out by \<open>JSON.stringify\<close>, a \<open>null\<close> is written.
\<close>

datatype json =
    JNull
  | JBool bool
  | JNum int
  | JStr string
  | JArr "json list"
  | JObj "(string \<times> json) list"

definition field :: "json \<Rightarrow> string \<Rightarrow> json option" where
  "field j k = (case j of JObj kvs \<Rightarrow> map_of kvs k | _ \<Rightarrow> None)"

definition keys_of :: "json \<Rightarrow> string list" where
  "keys_of j = (case j of JObj kvs \<Rightarrow> map fst kvs | _ \<Rightarrow> [])"

definition nullable :: "string option \<Rightarrow> json" where
  "nullable v = (case v of None \<Rightarrow> JNull | Some s \<Rightarrow> JStr s)"

definition optional :: "string \<Rightarrow> string option \<Rightarrow> (string \<times> json) list" where
  "optional k v = (case v of None \<Rightarrow> [] | Some s \<Rightarrow> [(k, JStr s)])"

type_synonym headers = "(string \<times> string) list"

text \<open>
  A response carries a JSON value built by the gateway, the bytes of a backend's answer, or
  no body at all.
\<close>

datatype body = Json json | Raw string | Empty

text \<open>
  The response the caller gets. \<open>res_headers\<close> holds the headers the gateway's own code
  decides (those it relays from the backend and those it adds); what Express, helmet, cors
  and the rate limiter add to every response is outside the model.
\<close>

record response =
  res_status :: nat
  res_headers :: headers
  res_body :: body

text \<open>\<open>req.gateway\<close>, as the tagging middleware of \<open>setupMiddleware\<close> builds it.\<close>

record gateway_ctx =
  timestamp :: string
  version :: string
  gw_requestId :: string

text \<open>
  A request that the body parsers and the rate limiter of \<open>setupMiddleware\<close> let through
  (a malformed body and an exhausted rate window are answered by those libraries and are not
  modelled). \<open>req.originalUrl\<close> is the path followed by the query string; Express matches
  routes on the path. \<open>requestId\<close> and \<open>gateway\<close> are \<open>undefined\<close> (\<open>None\<close>) until the
  tagging middleware sets them.
\<close>

record request =
  req_method :: string
  path :: string
  query :: string
  req_headers :: headers
  requestId :: "string option"
  gateway :: "gateway_ctx option"

definition originalUrl :: "request \<Rightarrow> string" where
  "originalUrl req = path req @ query req"

text \<open>
  What happens to a forwarded request: the backend answers with a status, headers and a body;
  or the exchange breaks with an error the proxy library reports (connection refused, reset by
  the backend, unknown host), named by its message; or the backend accepts the request and
  sends nothing for 30000 ms.
\<close>

datatype backend_outcome =
    BackendResponse nat headers string
  | TransportError string
  | NoAnswer

text \<open>What one request reads from the platform while it is handled.\<close>

record platform =
  uuid :: string
  t_tag :: string
  t_write :: string
  t_body :: string
  uptime :: json
  backend :: backend_outcome

text \<open>
  The ways a request ends without a response: an exception of the gateway's code, or the
  caller's socket destroyed while the backend is silent.
\<close>

datatype error =
    ServiceNotFound string
  | InvalidHeaderValue string
  | TypeError string
  | CallerSocketClosed

subsection \<open>Route matching\<close>

text \<open>
  Express 4 compiles a route path to a regular expression with the flag \<open>i\<close>. All the
  paths of the gateway are lower-case ASCII, so matching is on the path with its ASCII capitals
  folded.
\<close>

definition lower_char :: "char \<Rightarrow> char" where
  "lower_char c =
     (case map_of (zip ''ABCDEFGHIJKLMNOPQRSTUVWXYZ'' ''abcdefghijklmnopqrstuvwxyz'') c of
        Some d \<Rightarrow> d
      | None \<Rightarrow> c)"

definition lower :: "string \<Rightarrow> string" where
  "lower s = map lower_char s"

text \<open>
  \<open>app.get(p, ...)\<close>: \<open>^p\/?$\<close>, for GET and, since no HEAD route exists, for HEAD.
  For \<open>p = '/'\<close> the expression is \<open>^\/?$\<close>.
\<close>

definition is_get :: "request \<Rightarrow> bool" where
  "is_get req = (req_method req = ''GET'' \<or> req_method req = ''HEAD'')"

definition route_match :: "string \<Rightarrow> string \<Rightarrow> bool" where
  "route_match p pth =
     (if p = ''/'' then pth = ''/'' \<or> pth = []
      else lower pth = p \<or> lower pth = p @ ''/'')"

text \<open>
  \<open>app.use(p, ...)\<close>: \<open>^p\/?(?=\/|$)\<close>, any HTTP verb: the path is \<open>p\<close> itself or goes on
  with a slash.
\<close>

definition mount_match :: "string \<Rightarrow> string \<Rightarrow> bool" where
  "mount_match p pth =
     (let q = lower pth; rest = drop (length p) q
      in take (length p) q = p \<and> (rest = [] \<or> hd rest = CHR ''/''))"

text \<open>\<open>app.use('/api/*', ...)\<close>: \<open>^\/api\/(.*)\/?(?=\/|$)\<close>, every path under \<open>/api/\<close>.\<close>

definition api_match :: "string \<Rightarrow> bool" where
  "api_match pth = (take 5 (lower pth) = ''/api/'')"

text \<open>The service discovery middleware of \<open>setupMiddleware\<close>.\<close>

definition tag_request :: "platform \<Rightarrow> request \<Rightarrow> request" where
  "tag_request pf req =
     (if api_match (path req)
      then req\<lparr>requestId := Some (uuid pf),
               gateway := Some \<lparr>timestamp = t_tag pf, version = ''1.0.0'',
                                gw_requestId = uuid pf\<rparr>\<rparr>
      else req)"

subsection \<open>The introspection endpoints and the fallback\<close>

text \<open>The object \<open>/health\<close> stores for one service.\<close>

definition health_entry :: "service \<Rightarrow> json" where
  "health_entry service =
     JObj [(''name'', JStr (name service)),
           (''status'', JStr (status service)),
           (''lastHealthCheck'', nullable (lastHealthCheck service)),
           (''responseTime'', nullable (responseTime service))]"

text \<open>
  The loop \<open>for (const [key, service] of this.services.entries()) services[key] = ...\<close>,
  from the empty object.
\<close>

definition collect :: "(service \<Rightarrow> json) \<Rightarrow> registry \<Rightarrow> (string \<times> json) list" where
  "collect entry reg = fold (\<lambda>(key, service). assign key (entry service)) reg []"

definition overallHealth :: "registry \<Rightarrow> bool" where
  "overallHealth reg = list_all (\<lambda>s. status s = ''healthy'') (services_values reg)"

definition count_status :: "string \<Rightarrow> registry \<Rightarrow> int" where
  "count_status st reg = int (length (filter (\<lambda>s. status s = st) (services_values reg)))"

definition health_handler :: "platform \<Rightarrow> registry \<Rightarrow> response" where
  "health_handler pf reg =
     \<lparr>res_status = (if overallHealth reg then 200 else 503),
      res_headers = [],
      res_body = Json (JObj
        [(''status'', JStr (if overallHealth reg then ''healthy'' else ''degraded'')),
         (''gateway'', JObj [(''version'', JStr ''1.0.0''),
                             (''uptime'', uptime pf),
                             (''timestamp'', JStr (t_body pf))]),
         (''services'', JObj (collect health_entry reg)),
         (''totalServices'', JNum (int (length reg))),
         (''healthyServices'', JNum (count_status ''healthy'' reg))])\<rparr>"

definition info_entry :: "string \<times> service \<Rightarrow> json" where
  "info_entry e =
     (case e of (key, service) \<Rightarrow>
        JObj [(''id'', JStr key),
              (''name'', JStr (name service)),
              (''routes'', JArr (map JStr (routes service))),
              (''status'', JStr (status service))])"

definition info_handler :: "platform \<Rightarrow> registry \<Rightarrow> response" where
  "info_handler pf reg =
     \<lparr>res_status = 200,
      res_headers = [],
      res_body = Json (JObj
        [(''message'', JStr ''API Gateway - Microservices Router''),
         (''version'', JStr ''1.0.0''),
         (''features'', JArr (map JStr
            [''Service Discovery'', ''Load Balancing'', ''Health Monitoring'',
             ''Request Routing'', ''Rate Limiting'', ''Circuit Breaker'',
             ''Request/Response Transformation''])),
         (''services'', JArr (map info_entry reg)),
         (''endpoints'', JObj [(''health'', JStr ''/health''),
                               (''services'', JStr ''/services''),
                               (''users'', JStr ''/api/users/*''),
                               (''products'', JStr ''/api/products/*''),
                               (''orders'', JStr ''/api/orders/*'')]),
         (''timestamp'', JStr (t_body pf))])\<rparr>"

text \<open>The object \<open>/services\<close> stores for one service.\<close>

definition services_entry :: "service \<Rightarrow> json" where
  "services_entry service =
     JObj [(''name'', JStr (name service)),
           (''url'', JStr (url service)),
           (''status'', JStr (status service)),
           (''routes'', JArr (map JStr (routes service))),
           (''lastHealthCheck'', nullable (lastHealthCheck service)),
           (''responseTime'', nullable (responseTime service)),
           (''healthy'', JBool (status service = ''healthy''))]"

definition services_handler :: "platform \<Rightarrow> registry \<Rightarrow> response" where
  "services_handler pf reg =
     \<lparr>res_status = 200,
      res_headers = [],
      res_body = Json (JObj
        [(''success'', JBool True),
         (''data'', JObj (collect services_entry reg)),
         (''summary'', JObj [(''total'', JNum (int (length reg))),
                             (''healthy'', JNum (count_status ''healthy'' reg)),
                             (''unhealthy'', JNum (count_status ''unhealthy'' reg)),
                             (''unknown'', JNum (count_status ''unknown'' reg))]),
         (''timestamp'', JStr (t_body pf))])\<rparr>"

text \<open>The fallback route \<open>app.use('*', ...)\<close>.\<close>

definition fallback :: "request \<Rightarrow> platform \<Rightarrow> registry \<Rightarrow> response" where
  "fallback req pf reg =
     \<lparr>res_status = 404,
      res_headers = [],
      res_body = Json (JObj
        [(''error'', JStr ''Route not found''),
         (''message'',
            JStr (''Gateway cannot route '' @ req_method req @ '' '' @ originalUrl req)),
         (''availableServices'', JArr (map JStr (services_keys reg))),
         (''suggestions'', JArr (map JStr
            [''Check if the target service is running'',
             ''Verify the route path is correct'',
             ''Check service registration in gateway''])),
         (''gateway'', JObj (optional ''requestId'' (requestId req)
                             @ [(''timestamp'', JStr (t_body pf))]))])\<rparr>"

subsection \<open>The service proxies\<close>

text \<open>
  \<open>createServiceProxy(serviceKey)\<close> looks the descriptor up once, throws when there is none,
  and returns a middleware whose callbacks close over \<open>serviceKey\<close> and over the descriptor
  object. The registry never drops or replaces a descriptor, so the object the callbacks hold
  is the one \<open>get(serviceKey)\<close> returns at any later time: a callback's assignment to
  \<open>service.status\<close> is \<open>mutate serviceKey\<close> on the registry. \<open>target\<close> is the value of
  \<open>service.url\<close> when the proxy is created. The \<open>pathRewrite\<close> options replace each prefix by
  itself and are left out.
\<close>

record proxy =
  target :: string
  bound_key :: string

definition createServiceProxy :: "registry \<Rightarrow> string \<Rightarrow> error + proxy" where
  "createServiceProxy reg serviceKey =
     (case services_get reg serviceKey of
        None \<Rightarrow> Inl (ServiceNotFound (''Service '' @ serviceKey @ '' not found''))
      | Some service \<Rightarrow> Inr \<lparr>target = url service, bound_key = serviceKey\<rparr>)"

text \<open>\<open>setupServiceProxies\<close>: the three mounts, in the order of the \<open>app.use\<close> calls.\<close>

definition setupServiceProxies :: "registry \<Rightarrow> error + (string \<times> proxy) list" where
  "setupServiceProxies reg =
     (case createServiceProxy reg ''user-service'' of
        Inl e \<Rightarrow> Inl e
      | Inr users \<Rightarrow>
     (case createServiceProxy reg ''product-service'' of
        Inl e \<Rightarrow> Inl e
      | Inr products \<Rightarrow>
     (case createServiceProxy reg ''order-service'' of
        Inl e \<Rightarrow> Inl e
      | Inr orders \<Rightarrow>
          Inr [(''/api/users'', users), (''/api/products'', products),
               (''/api/orders'', orders)])))"

text \<open>
  \<open>onError\<close>: the descriptor is marked, then the 503 body is built. \<open>service\<close> is the
  descriptor as it stands, read for its display name.
\<close>

definition onError ::
  "string \<Rightarrow> service \<Rightarrow> request \<Rightarrow> platform \<Rightarrow> registry \<Rightarrow> registry \<times> response" where
  "onError serviceKey service req pf reg =
     (mutate serviceKey
        (\<lambda>s. s\<lparr>status := ''unhealthy'', lastHealthCheck := Some (t_write pf)\<rparr>) reg,
      \<lparr>res_status = 503,
       res_headers = [],
       res_body = Json (JObj
         [(''error'', JStr ''Service unavailable''),
          (''message'', JStr (name service @ '' is currently unavailable'')),
          (''service'', JStr serviceKey),
          (''gateway'', JObj (optional ''requestId'' (requestId req)
                              @ [(''timestamp'', JStr (t_body pf)),
                                 (''retryAfter'', JNum 30)])),
          (''suggestions'', JArr (map JStr
             [''Try again in a few moments'',
              ''Check service status at /services'',
              ''Contact support if problem persists'']))])\<rparr>)"

text \<open>
  \<open>onProxyReq\<close>: four headers on the outgoing request. \<open>setHeader\<close> throws on an
  \<open>undefined\<close> value, and reading \<open>req.gateway.timestamp\<close> throws when \<open>req.gateway\<close> is
  \<open>undefined\<close>.
\<close>

definition onProxyReq :: "request \<Rightarrow> headers \<Rightarrow> error + headers" where
  "onProxyReq req hs =
     (case requestId req of
        None \<Rightarrow> Inl (InvalidHeaderValue ''X-Gateway-Request-ID'')
      | Some rid \<Rightarrow>
     (case gateway req of
        None \<Rightarrow> Inl (TypeError ''req.gateway is undefined'')
      | Some g \<Rightarrow>
          Inr (assign ''X-Forwarded-By'' ''api-gateway''
              (assign ''X-Gateway-Version'' (version g)
              (assign ''X-Gateway-Timestamp'' (timestamp g)
              (assign ''X-Gateway-Request-ID'' rid hs))))))"

text \<open>
  \<open>onProxyRes\<close>: two headers on the backend's response, and the descriptor marked healthy
  when the status is below 500. There is no other branch. (A header assigned \<open>undefined\<close>
  is skipped when the library copies the headers to the caller.)
\<close>

definition onProxyRes ::
  "string \<Rightarrow> request \<Rightarrow> nat \<Rightarrow> headers \<Rightarrow> platform \<Rightarrow> registry \<Rightarrow> headers \<times> registry" where
  "onProxyRes serviceKey req statusCode hs pf reg =
     (let hs1 = assign ''X-Gateway-Service'' serviceKey hs;
          hs2 = (case requestId req of
                   None \<Rightarrow> hs1
                 | Some rid \<Rightarrow> assign ''X-Gateway-Request-ID'' rid hs1)
      in (hs2,
          if statusCode < 500
          then mutate serviceKey
                 (\<lambda>s. s\<lparr>status := ''healthy'', lastHealthCheck := Some (t_write pf)\<rparr>) reg
          else reg))"

text \<open>The request the proxy sends to the backend.\<close>

record forwarded =
  fwd_target :: string
  fwd_method :: string
  fwd_url :: string
  fwd_headers :: headers

text \<open>
  \<open>res.status(n).json(j)\<close> ends in Express's \<open>res.send\<close>, which leaves the body out of the
  answer to a HEAD request.
\<close>

definition send :: "request \<Rightarrow> response \<Rightarrow> response" where
  "send req res = (if req_method req = ''HEAD'' then res\<lparr>res_body := Empty\<rparr> else res)"

text \<open>
  The middleware \<open>createProxyMiddleware\<close> returns is library code. It exists only for a
  registered service (\<open>createServiceProxy\<close> throws otherwise), which is the first case
  below. Its contract, as far as the gateway relies on it:
  \<^item> the request goes to \<open>target\<close> with the verb and the original URL, after \<open>onProxyReq\<close>
    has seen it;
  \<^item> when the backend answers, whatever the status, \<open>onProxyRes\<close> runs and then status,
    headers and body of the answer are copied to the caller;
  \<^item> when the exchange breaks with an error (refused, reset by the backend), \<open>onError\<close>
    runs and what it writes is the response;
  \<^item> when the backend stays silent, none of the callbacks runs. \<open>createServiceProxy\<close> sets
    \<open>timeout\<close> and \<open>proxyTimeout\<close> to the same 30000 ms; \<open>timeout\<close> arms the caller's
    socket, which is armed first and fires first, so the caller's socket is destroyed, the
    library reports the reset of a request whose caller is gone on a channel of its own
    (\<open>econnreset\<close>), and the caller gets no response.
\<close>

definition proxy_middleware ::
  "proxy \<Rightarrow> request \<Rightarrow> platform \<Rightarrow> registry
     \<Rightarrow> error + (registry \<times> response \<times> forwarded option)" where
  "proxy_middleware px req pf reg =
     (case services_get reg (bound_key px) of
        None \<Rightarrow> Inl (ServiceNotFound (''Service '' @ bound_key px @ '' not found''))
      | Some service \<Rightarrow>
     (case onProxyReq req (req_headers req) of
        Inl e \<Rightarrow> Inl e
      | Inr hs \<Rightarrow>
          (let fwd = \<lparr>fwd_target = target px, fwd_method = req_method req,
                      fwd_url = originalUrl req, fwd_headers = hs\<rparr>
           in case backend pf of
                BackendResponse statusCode rhs rbody \<Rightarrow>
                  (case onProxyRes (bound_key px) req statusCode rhs pf reg of
                     (rhs', reg') \<Rightarrow>
                       Inr (reg',
                            \<lparr>res_status = statusCode, res_headers = rhs',
                             res_body = Raw rbody\<rparr>,
                            Some fwd))
              | TransportError msg \<Rightarrow>
                  (case onError (bound_key px) service req pf reg of
                     (reg', res) \<Rightarrow> Inr (reg', send req res, Some fwd))
              | NoAnswer \<Rightarrow> Inl CallerSocketClosed)))"

subsection \<open>The route table\<close>

text \<open>
  The layers of the application that answer a request, in the order they are registered:
  the \<open>cors\<close> middleware of \<open>setupMiddleware\<close>, which ends every OPTIONS request with 204
  and no body (\<open>preflightContinue\<close> is not set); then, from \<open>setupRoutes\<close>, \<open>GET /health\<close>,
  \<open>GET /\<close>, \<open>GET /services\<close>, the three proxy mounts, and the fallback. Express runs the
  first that matches; every handler here answers, none calls \<open>next\<close>. The tagging
  middleware stands between \<open>cors\<close> and the routes.
\<close>

datatype handler =
    CorsPreflight
  | HealthEndpoint
  | InfoEndpoint
  | ServicesEndpoint
  | ProxyTo proxy
  | Fallback

definition route :: "(string \<times> proxy) list \<Rightarrow> request \<Rightarrow> handler" where
  "route proxies req =
     (if req_method req = ''OPTIONS'' then CorsPreflight
      else if is_get req \<and> route_match ''/health'' (path req) then HealthEndpoint
      else if is_get req \<and> route_match ''/'' (path req) then InfoEndpoint
      else if is_get req \<and> route_match ''/services'' (path req) then ServicesEndpoint
      else case find (\<lambda>(p, px). mount_match p (path req)) proxies of
             Some (p, px) \<Rightarrow> ProxyTo px
           | None \<Rightarrow> Fallback)"

definition handle_request ::
  "(string \<times> proxy) list \<Rightarrow> request \<Rightarrow> platform \<Rightarrow> registry
     \<Rightarrow> error + (registry \<times> response \<times> forwarded option)" where
  "handle_request proxies raw pf reg =
     (let req = tag_request pf raw
      in case route proxies req of
           CorsPreflight \<Rightarrow>
             Inr (reg, \<lparr>res_status = 204, res_headers = [], res_body = Empty\<rparr>, None)
         | HealthEndpoint \<Rightarrow> Inr (reg, send req (health_handler pf reg), None)
         | InfoEndpoint \<Rightarrow> Inr (reg, send req (info_handler pf reg), None)
         | ServicesEndpoint \<Rightarrow> Inr (reg, send req (services_handler pf reg), None)
         | ProxyTo px \<Rightarrow> proxy_middleware px req pf reg
         | Fallback \<Rightarrow> Inr (reg, send req (fallback req pf reg), None))"

subsection \<open>The gateway as a transition system\<close>

text \<open>
  The constructor registers the services and mounts the proxies; nothing after it changes
  the mounts.
\<close>

definition gateway_proxies :: "(string \<times> proxy) list" where
  "gateway_proxies =
     [(''/api/users'', \<lparr>target = ''http://localhost:3002'', bound_key = ''user-service''\<rparr>),
      (''/api/products'', \<lparr>target = ''http://localhost:3003'', bound_key = ''product-service''\<rparr>),
      (''/api/orders'', \<lparr>target = ''http://localhost:3004'', bound_key = ''order-service''\<rparr>)]"

text \<open>
  JavaScript runs one callback at a time, so the registry changes in steps: a probe settles,
  or a request is answered. A request that ends without a response leaves the registry as
  it was: none of the throwing paths has written to it before, and an exchange that runs no
  callback writes nothing.
\<close>

datatype event =
    ProbeSettled string probe
  | RequestHandled request platform

definition step :: "registry \<Rightarrow> event \<Rightarrow> registry" where
  "step reg ev =
     (case ev of
        ProbeSettled serviceKey p \<Rightarrow> checkServiceHealth serviceKey p reg
      | RequestHandled req pf \<Rightarrow>
          (case handle_request gateway_proxies req pf reg of
             Inl e \<Rightarrow> reg
           | Inr (reg', res, fwd) \<Rightarrow> reg'))"

inductive reachable :: "registry \<Rightarrow> bool" where
  reachable_init: "reachable initial_registry"
| reachable_step: "reachable reg \<Longrightarrow> reachable (step reg ev)"

text \<open>
  \<open>startHealthMonitoring\<close>: a pass calls \<open>checkServiceHealth\<close> for every key of the
  \<open>Map\<close>, in its order, without waiting for any of them. The first pass runs inside the
  constructor, the later ones from a \<open>setInterval\<close> timer of 30000 ms. The model keeps which
  probes a pass starts; when they settle is the place of their \<open>ProbeSettled\<close> events in a
  run of the gateway. The timer and the bound on a probe have no counterpart here.
\<close>

definition startHealthMonitoring :: "registry \<Rightarrow> string list" where
  "startHealthMonitoring reg = services_keys reg"

definition run :: "registry \<Rightarrow> event list \<Rightarrow> registry" where
  "run reg evs = foldl step reg evs"

subsection \<open>Observations and sample inputs\<close>

text \<open>
  What a test would read off a registry and off a response: a descriptor's status and
  latency, the value at a path of keys in a JSON body, the keys of the object there. A path
  matches a registered route prefix when it is under a prefix in some descriptor's
  \<open>routes\<close>, and a request is for one of the gateway's own endpoints when it is a GET for
  \<open>/health\<close>, \<open>/\<close> or \<open>/services\<close>.
\<close>

definition status_of :: "registry \<Rightarrow> string \<Rightarrow> string option" where
  "status_of reg k = map_option status (services_get reg k)"

fun at :: "json \<Rightarrow> string list \<Rightarrow> json option" where
  "at j [] = Some j"
| "at j (k # ks) = (case field j k of None \<Rightarrow> None | Some j' \<Rightarrow> at j' ks)"

definition body_at :: "response \<Rightarrow> string list \<Rightarrow> json option" where
  "body_at res ks =
     (case res_body res of Json j \<Rightarrow> at j ks | Raw s \<Rightarrow> None | Empty \<Rightarrow> None)"

definition body_keys :: "response \<Rightarrow> string list \<Rightarrow> string list" where
  "body_keys res ks = (case body_at res ks of None \<Rightarrow> [] | Some j \<Rightarrow> keys_of j)"

definition responseTime_of :: "registry \<Rightarrow> string \<Rightarrow> string option option" where
  "responseTime_of reg k = map_option responseTime (services_get reg k)"

definition matches_registered_prefix :: "registry \<Rightarrow> string \<Rightarrow> bool" where
  "matches_registered_prefix reg pth =
     list_ex (\<lambda>service. list_ex (\<lambda>p. mount_match p pth) (routes service))
       (services_values reg)"

definition gateway_endpoint :: "request \<Rightarrow> bool" where
  "gateway_endpoint req =
     (is_get req \<and>
      (route_match ''/health'' (path req) \<or> route_match ''/'' (path req)
       \<or> route_match ''/services'' (path req)))"

definition answered ::
  "error + (registry \<times> response \<times> forwarded option) \<Rightarrow> response option" where
  "answered r = (case r of Inl e \<Rightarrow> None | Inr (reg', res, fwd) \<Rightarrow> Some res)"

text \<open>
  Sample inputs for the closed facts below: a request under \<open>/api/users\<close> and the proxy
  mounted there, platform readings around a given backend outcome, a probe answered with 200
  after 12 ms, the registry of a fresh gateway after that probe of the user service, the
  descriptor \<open>registerServices\<close> stores for the user service, and requests for
  \<open>/health\<close>, \<open>/services\<close>, an unknown path under \<open>/api\<close> and a path under
  \<open>/api/auth\<close>.
\<close>

definition users_request :: request where
  "users_request =
     \<lparr>req_method = ''GET'', path = ''/api/users/1'', query = [], req_headers = [],
      requestId = None, gateway = None\<rparr>"

definition users_proxy :: proxy where
  "users_proxy = \<lparr>target = ''http://localhost:3002'', bound_key = ''user-service''\<rparr>"

definition readings :: "backend_outcome \<Rightarrow> platform" where
  "readings b =
     \<lparr>uuid = ''req-1'', t_tag = ''T1'', t_write = ''T2'', t_body = ''T3'',
      uptime = JNum 7, backend = b\<rparr>"

definition probe_ok :: probe where
  "probe_ok = \<lparr>outcome = HttpStatus 200, elapsed = 12, now = ''T0''\<rparr>"

definition healthy_registry :: registry where
  "healthy_registry = checkServiceHealth ''user-service'' probe_ok initial_registry"

definition user_descriptor :: service where
  "user_descriptor =
     \<lparr>name = ''User Service'', url = ''http://localhost:3002'',
      health = ''http://localhost:3002/health'', routes = [''/api/users'', ''/api/auth''],
      status = ''unknown'', lastHealthCheck = None, responseTime = None\<rparr>"

definition health_request :: request where
  "health_request =
     \<lparr>req_method = ''GET'', path = ''/health'', query = [], req_headers = [],
      requestId = None, gateway = None\<rparr>"

definition services_request :: request where
  "services_request =
     \<lparr>req_method = ''GET'', path = ''/services'', query = [], req_headers = [],
      requestId = None, gateway = None\<rparr>"

definition unknown_request :: request where
  "unknown_request =
     \<lparr>req_method = ''GET'', path = ''/api/nonexistent/x'', query = [], req_headers = [],
      requestId = None, gateway = None\<rparr>"

definition auth_request :: request where
  "auth_request =
     \<lparr>req_method = ''POST'', path = ''/api/auth/login'', query = [], req_headers = [],
      requestId = None, gateway = None\<rparr>"

section \<open>Basic facts\<close>

lemmas eval_defs =
  initial_registry_def registerServices_def services_set_def services_get_def
  services_keys_def services_values_def checkServiceHealth_def axios_get_def
  number_string_def field_def keys_of_def nullable_def optional_def originalUrl_def
  lower_def lower_char_def is_get_def route_match_def mount_match_def api_match_def
  tag_request_def health_entry_def collect_def overallHealth_def count_status_def
  health_handler_def info_entry_def info_handler_def services_entry_def
  services_handler_def fallback_def onError_def onProxyReq_def onProxyRes_def
  proxy_middleware_def route_def handle_request_def gateway_proxies_def step_def send_def
  status_of_def body_at_def body_keys_def responseTime_of_def
  matches_registered_prefix_def gateway_endpoint_def answered_def users_request_def readings_def
  probe_ok_def healthy_registry_def users_proxy_def


lemmas sample_defs =
  health_request_def services_request_def unknown_request_def auth_request_def
  user_descriptor_def

lemma map_of_assign: "map_of (assign k v al) = (map_of al)(k \<mapsto> v)"
  by (induction al) auto

lemma keys_assign: "set (map fst (assign k v al)) = insert k (set (map fst al))"
  by (induction al) auto

lemma map_of_collect_acc:
  "map_of (fold (\<lambda>(key, service). assign key (entry service)) reg acc) k =
     (case map_of (rev reg) k of Some s \<Rightarrow> Some (entry s) | None \<Rightarrow> map_of acc k)"
proof (induction reg arbitrary: acc)
  case Nil
  show ?case by simp
next
  case (Cons e reg)
  obtain key service where e: "e = (key, service)" by (cases e)
  show ?case
    by (simp add: e Cons.IH map_of_assign map_add_def split: option.splits)
qed

lemma keys_collect_acc:
  "set (map fst (fold (\<lambda>(key, service). assign key (entry service)) reg acc)) =
     set (map fst reg) \<union> set (map fst acc)"
proof (induction reg arbitrary: acc)
  case Nil
  show ?case by simp
next
  case (Cons e reg)
  obtain key service where e: "e = (key, service)" by (cases e)
  show ?case
    by (simp add: e Cons.IH keys_assign del: set_map) 
qed

lemma map_of_collect:
  "map_of (collect entry reg) k = map_option entry (map_of (rev reg) k)"
  by (simp add: collect_def map_of_collect_acc split: option.splits)

lemma keys_collect: "set (map fst (collect entry reg)) = set (services_keys reg)"
  by (simp add: collect_def keys_collect_acc services_keys_def del: set_map)

lemma map_of_rev_distinct:
  "distinct (map fst reg) \<Longrightarrow> map_of (rev reg) = map_of reg"
  by (rule ext) (metis distinct_rev map_of_inject_set rev_map set_rev)

lemma services_get_mutate:
  "services_get (mutate k f reg) k' =
     (if k' = k then map_option f (services_get reg k) else services_get reg k')"
  by (induction reg) (auto simp: services_get_def)

lemma keys_mutate: "map fst (mutate k f reg) = map fst reg"
  by (induction reg) auto

lemma mutate_absent: "services_get reg k = None \<Longrightarrow> mutate k f reg = reg"
  by (induction reg) (auto simp: services_get_def split: if_splits)

lemma map_mutate_frame:
  "(\<And>s. g (f s) = g s) \<Longrightarrow> map (\<lambda>(k, s). (k, g s)) (mutate k0 f reg) = map (\<lambda>(k, s). (k, g s)) reg"
  by (induction reg) (auto split: prod.splits)

lemma setup_initial: "setupServiceProxies initial_registry = Inr gateway_proxies"
  by (simp add: setupServiceProxies_def createServiceProxy_def initial_registry_def
      registerServices_def services_set_def services_get_def gateway_proxies_def)

lemma tag_request_path [simp]: "path (tag_request pf raw) = path raw"
  by (simp add: tag_request_def)

lemma tag_request_method [simp]: "req_method (tag_request pf raw) = req_method raw"
  by (simp add: tag_request_def)

lemma tag_request_query [simp]: "query (tag_request pf raw) = query raw"
  by (simp add: tag_request_def)

lemma tag_request_headers [simp]: "req_headers (tag_request pf raw) = req_headers raw"
  by (simp add: tag_request_def)

lemma send_tag_request [simp]: "send (tag_request pf raw) res = send raw res"
  by (simp add: send_def)

lemma route_tag_request [simp]: "route ps (tag_request pf raw) = route ps raw"
  by (simp add: route_def is_get_def)

lemma mount_under_api:
  assumes "mount_match p pth" and "take 5 p = ''/api/''"
  shows "api_match pth"
proof -
  from assms(1) have t: "take (length p) (lower pth) = p"
    by (simp add: mount_match_def Let_def)
  from assms(2) have "5 \<le> length p"
    by (cases "5 \<le> length p") auto
  then have "take 5 (lower pth) = take 5 (take (length p) (lower pth))"
    by (simp add: min_def)
  with t assms(2) show ?thesis
    by (simp add: api_match_def)
qed

lemma find_SomeD: "find P xs = Some x \<Longrightarrow> x \<in> set xs \<and> P x"
  by (induction xs) (auto split: if_splits)

lemma route_ProxyTo:
  assumes "route ps req = ProxyTo px"
  shows "\<exists>p. (p, px) \<in> set ps \<and> mount_match p (path req)"
proof -
  from assms obtain p where "find (\<lambda>(p, px). mount_match p (path req)) ps = Some (p, px)"
    by (auto simp: route_def split: if_splits option.splits)
  from find_SomeD [OF this] show ?thesis
    by auto
qed

lemma gateway_route_tagged:
  assumes "route gateway_proxies raw = ProxyTo px"
  shows "api_match (path raw)"
proof -
  from route_ProxyTo [OF assms] obtain p
    where p: "(p, px) \<in> set gateway_proxies" and m: "mount_match p (path raw)"
    by blast
  from p have "take 5 p = ''/api/''"
    by (auto simp: gateway_proxies_def)
  with m show ?thesis by (rule mount_under_api)
qed

lemma onProxyReq_tagged:
  assumes "api_match (path raw)"
  shows "onProxyReq (tag_request pf raw) hs =
           Inr (assign ''X-Forwarded-By'' ''api-gateway''
               (assign ''X-Gateway-Version'' ''1.0.0''
               (assign ''X-Gateway-Timestamp'' (t_tag pf)
               (assign ''X-Gateway-Request-ID'' (uuid pf) hs))))"
  using assms by (simp add: onProxyReq_def tag_request_def)

lemma handle_request_proxied:
  assumes "route gateway_proxies raw = ProxyTo px"
      and "services_get reg (bound_key px) = Some service"
  shows "handle_request gateway_proxies raw pf reg =
           (let req = tag_request pf raw;
                fwd = \<lparr>fwd_target = target px, fwd_method = req_method raw,
                       fwd_url = originalUrl raw,
                       fwd_headers =
                         assign ''X-Forwarded-By'' ''api-gateway''
                        (assign ''X-Gateway-Version'' ''1.0.0''
                        (assign ''X-Gateway-Timestamp'' (t_tag pf)
                        (assign ''X-Gateway-Request-ID'' (uuid pf) (req_headers raw))))\<rparr>
            in case backend pf of
                 BackendResponse statusCode rhs rbody \<Rightarrow>
                   Inr (snd (onProxyRes (bound_key px) req statusCode rhs pf reg),
                        \<lparr>res_status = statusCode,
                         res_headers = fst (onProxyRes (bound_key px) req statusCode rhs pf reg),
                         res_body = Raw rbody\<rparr>,
                        Some fwd)
               | TransportError msg \<Rightarrow>
                   Inr (fst (onError (bound_key px) service req pf reg),
                        send raw (snd (onError (bound_key px) service req pf reg)),
                        Some fwd)
               | NoAnswer \<Rightarrow> Inl CallerSocketClosed)"
  using assms gateway_route_tagged [OF assms(1)]
  by (simp add: handle_request_def proxy_middleware_def onProxyReq_tagged Let_def
      originalUrl_def split: backend_outcome.splits prod.splits)


lemma dispatch_health:
  assumes "req_method raw = ''GET''" and "path raw = ''/health''"
  shows "handle_request ps raw pf reg = Inr (reg, health_handler pf reg, None)"
  using assms
  by (simp add: handle_request_def route_def is_get_def route_match_def lower_def lower_char_def
      send_def)

lemma dispatch_services:
  assumes "req_method raw = ''GET''" and "path raw = ''/services''"
  shows "handle_request ps raw pf reg = Inr (reg, services_handler pf reg, None)"
  using assms
  by (simp add: handle_request_def route_def is_get_def route_match_def lower_def lower_char_def
      send_def)

lemma overallHealth_iff:
  "overallHealth reg \<longleftrightarrow> (\<forall>s \<in> set (services_values reg). status s = ''healthy'')"
  by (simp add: overallHealth_def list_all_iff)

lemma at_append:
  "at j (ks @ ks') = (case at j ks of None \<Rightarrow> None | Some j' \<Rightarrow> at j' ks')"
  by (induction ks arbitrary: j) (auto split: option.splits)

lemma body_at_under:
  assumes "body_at res ks = Some e"
  shows "body_at res (ks @ ks') = at e ks'"
  using assms by (simp add: body_at_def at_append split: body.splits)

lemma body_at_append:
  "body_at res (ks @ ks') = (case body_at res ks of None \<Rightarrow> None | Some e \<Rightarrow> at e ks')"
  by (simp add: body_at_def at_append split: body.splits)

lemma health_entry_at:
  assumes "wf_registry reg" and "services_get reg k = Some s"
  shows "body_at (health_handler pf reg) [''services'', k] = Some (health_entry s)"
  using assms
  by (simp add: body_at_def health_handler_def field_def map_of_collect map_of_rev_distinct
      wf_registry_def services_get_def)

lemma collected_at:
  "at (JObj (collect entry reg)) [k] = map_option entry (map_of (rev reg) k)"
  by (simp add: field_def map_of_collect split: option.splits)

lemma health_services_at:
  "body_at (health_handler pf reg) [''services'', k] =
     map_option health_entry (map_of (rev reg) k)"
  by (simp add: body_at_def health_handler_def field_def map_of_collect split: option.splits)

lemma services_data_at:
  "body_at (services_handler pf reg) [''data'', k] =
     map_option services_entry (map_of (rev reg) k)"
  by (simp add: body_at_def services_handler_def field_def map_of_collect split: option.splits)

lemma health_services_keys:
  "set (body_keys (health_handler pf reg) [''services'']) = set (services_keys reg)"
  by (simp add: body_keys_def body_at_def health_handler_def field_def keys_of_def keys_collect
      del: set_map)

lemma services_data_keys:
  "set (body_keys (services_handler pf reg) [''data'']) = set (services_keys reg)"
  by (simp add: body_keys_def body_at_def services_handler_def field_def keys_of_def keys_collect
      del: set_map)

lemma last_entry:
  assumes "k \<in> set (services_keys reg)"
  shows "\<exists>s. (k, s) \<in> set reg \<and> map_of (rev reg) k = Some s"
proof -
  from assms have "k \<in> fst ` set (rev reg)"
    by (simp add: services_keys_def)
  then obtain s where "map_of (rev reg) k = Some s"
    by (cases "map_of (rev reg) k") (auto simp: map_of_eq_None_iff simp del: set_rev)
  moreover from this have "(k, s) \<in> set reg"
    by (auto dest: map_of_SomeD)
  ultimately show ?thesis by blast
qed

lemma map_of_values:
  "map_of (map (\<lambda>e. (fst e, g (snd e))) xs) k = map_option g (map_of xs k)"
  by (induction xs) auto

lemma health_latency_at:
  "body_at (health_handler pf reg) [''services'', k, ''responseTime''] =
     map_option nullable (map_of (rev (map (\<lambda>e. (fst e, responseTime (snd e))) reg)) k)"
proof -
  have "body_at (health_handler pf reg) ([''services'', k] @ [''responseTime'']) =
      (case map_of (rev reg) k of None \<Rightarrow> None | Some s \<Rightarrow> Some (nullable (responseTime s)))"
    unfolding body_at_append health_services_at
    by (simp add: health_entry_def field_def split: option.splits)
  then show ?thesis
    by (simp add: rev_map map_of_values split: option.splits)
qed

lemma services_latency_at:
  "body_at (services_handler pf reg) [''data'', k, ''responseTime''] =
     map_option nullable (map_of (rev (map (\<lambda>e. (fst e, responseTime (snd e))) reg)) k)"
proof -
  have "body_at (services_handler pf reg) ([''data'', k] @ [''responseTime'']) =
      (case map_of (rev reg) k of None \<Rightarrow> None | Some s \<Rightarrow> Some (nullable (responseTime s)))"
    unfolding body_at_append services_data_at
    by (simp add: services_entry_def field_def split: option.splits)
  then show ?thesis
    by (simp add: rev_map map_of_values split: option.splits)
qed

lemma handle_request_registry:
  assumes "handle_request ps raw pf reg = Inr (reg', res, fwd)"
  shows "reg' = reg
       \<or> (\<exists>k. reg' = mutate k (\<lambda>s. s\<lparr>status := ''healthy'', lastHealthCheck := Some (t_write pf)\<rparr>) reg)
       \<or> (\<exists>k. reg' = mutate k (\<lambda>s. s\<lparr>status := ''unhealthy'', lastHealthCheck := Some (t_write pf)\<rparr>) reg)"
  using assms
  by (auto simp: handle_request_def proxy_middleware_def onProxyRes_def onError_def Let_def
      split: handler.splits option.splits sum.splits backend_outcome.splits if_splits)

lemma request_step_shape:
  "step reg (RequestHandled raw pf) = reg
   \<or> (\<exists>k st. st \<in> {''healthy'', ''unhealthy''}
        \<and> step reg (RequestHandled raw pf) =
            mutate k (\<lambda>s. s\<lparr>status := st, lastHealthCheck := Some (t_write pf)\<rparr>) reg)"
proof (cases "handle_request gateway_proxies raw pf reg")
  case (Inl e)
  then show ?thesis by (simp add: step_def)
next
  case (Inr r)
  obtain reg' res fwd where r: "r = (reg', res, fwd)" by (cases r)
  from handle_request_registry [OF Inr [unfolded r]] Inr r show ?thesis
    by (auto simp: step_def)
qed

lemma probe_step_shape:
  "step reg (ProbeSettled k p) = reg
   \<or> (\<exists>st rt. st \<in> {''healthy'', ''unhealthy''}
        \<and> step reg (ProbeSettled k p) =
            mutate k (\<lambda>s. s\<lparr>status := st, lastHealthCheck := Some (now p),
                              responseTime := Some rt\<rparr>) reg)"
  by (auto simp: step_def checkServiceHealth_def split: option.splits settled.splits)

lemma step_shape:
  "step reg ev = reg
   \<or> (\<exists>k f. step reg ev = mutate k f reg
        \<and> (\<forall>s. (status (f s) = ''healthy'' \<or> status (f s) = ''unhealthy'')
               \<and> name (f s) = name s \<and> url (f s) = url s \<and> health (f s) = health s
               \<and> routes (f s) = routes s))"
proof (cases ev)
  case (ProbeSettled k p)
  from probe_step_shape [of reg k p] show ?thesis
  proof (elim disjE exE conjE)
    assume "step reg (ProbeSettled k p) = reg"
    then show ?thesis by (simp add: ProbeSettled)
  next
    fix st rt
    assume st: "st \<in> {''healthy'', ''unhealthy''}"
      and m: "step reg (ProbeSettled k p) =
            mutate k (\<lambda>s. s\<lparr>status := st, lastHealthCheck := Some (now p),
                              responseTime := Some rt\<rparr>) reg"
    show ?thesis
      by (rule disjI2, rule exI [of _ k],
          rule exI [of _ "\<lambda>s. s\<lparr>status := st, lastHealthCheck := Some (now p),
                              responseTime := Some rt\<rparr>"])
        (use st m in \<open>simp add: ProbeSettled\<close>)
  qed
next
  case (RequestHandled raw pf)
  from request_step_shape [of reg raw pf] show ?thesis
  proof (elim disjE exE conjE)
    assume "step reg (RequestHandled raw pf) = reg"
    then show ?thesis by (simp add: RequestHandled)
  next
    fix k st
    assume st: "st \<in> {''healthy'', ''unhealthy''}"
      and m: "step reg (RequestHandled raw pf) =
            mutate k (\<lambda>s. s\<lparr>status := st, lastHealthCheck := Some (t_write pf)\<rparr>) reg"
    show ?thesis
      by (rule disjI2, rule exI [of _ k],
          rule exI [of _ "\<lambda>s. s\<lparr>status := st, lastHealthCheck := Some (t_write pf)\<rparr>"])
        (use st m in \<open>simp add: RequestHandled\<close>)
  qed
qed

lemma values_mutate_frame:
  assumes "\<And>s. g (f s) = g s"
  shows "map (\<lambda>e. g (snd e)) (mutate k f reg) = map (\<lambda>e. g (snd e)) reg"
  by (induction reg) (auto simp: assms)

lemma mutate_set:
  assumes "(k', s') \<in> set (mutate k f reg)"
  shows "(k', s') \<in> set reg \<or> (\<exists>s. (k', s) \<in> set reg \<and> s' = f s)"
  using assms by (induction reg) (auto split: if_splits)

lemma step_keys: "map fst (step reg ev) = map fst reg"
  using step_shape [of reg ev] by (auto simp: keys_mutate)

lemma step_routes: "map (\<lambda>e. routes (snd e)) (step reg ev) = map (\<lambda>e. routes (snd e)) reg"
  using step_shape [of reg ev] by (auto simp: values_mutate_frame)

lemma reachable_keys:
  assumes "reachable reg"
  shows "map fst reg = [''user-service'', ''product-service'', ''order-service'']"
  using assms
proof (induction rule: reachable.induct)
  case reachable_init
  show ?case
    by (simp add: initial_registry_def registerServices_def services_set_def)
next
  case (reachable_step reg ev)
  then show ?case by (simp add: step_keys)
qed

lemma reachable_routes:
  assumes "reachable reg"
  shows "map (\<lambda>e. routes (snd e)) reg =
           [[''/api/users'', ''/api/auth''], [''/api/products''], [''/api/orders'']]"
  using assms
proof (induction rule: reachable.induct)
  case reachable_init
  show ?case
    by (simp add: initial_registry_def registerServices_def services_set_def)
next
  case (reachable_step reg ev)
  then show ?case by (simp add: step_routes)
qed

lemma reachable_wf:
  assumes "reachable reg"
  shows "wf_registry reg"
  by (simp add: wf_registry_def reachable_keys [OF assms])

lemma reachable_registered:
  assumes "reachable reg" and "(p, px) \<in> set gateway_proxies"
  shows "\<exists>service. services_get reg (bound_key px) = Some service"
proof -
  from assms(2) have "bound_key px \<in> set (map fst reg)"
    by (auto simp: reachable_keys [OF assms(1)] gateway_proxies_def)
  then show ?thesis
    by (cases "services_get reg (bound_key px)")
      (auto simp: services_get_def map_of_eq_None_iff)
qed

lemma handle_request_total:
  assumes "reachable reg"
  shows "(\<exists>reg' res fwd. handle_request gateway_proxies raw pf reg = Inr (reg', res, fwd))
       \<or> (backend pf = NoAnswer
          \<and> handle_request gateway_proxies raw pf reg = Inl CallerSocketClosed)"
proof (cases "route gateway_proxies raw")
  case (ProxyTo px)
  from route_ProxyTo [OF this] obtain p where "(p, px) \<in> set gateway_proxies"
    by blast
  from reachable_registered [OF assms this] obtain service
    where "services_get reg (bound_key px) = Some service" ..
  from handle_request_proxied [OF ProxyTo this, of pf] show ?thesis
    by (cases "backend pf") (simp_all add: Let_def)
qed (simp_all add: handle_request_def)

lemma proxied_no_answer:
  assumes "route gateway_proxies raw = ProxyTo px"
      and "services_get reg (bound_key px) = Some service"
      and "backend pf = NoAnswer"
  shows "handle_request gateway_proxies raw pf reg = Inl CallerSocketClosed
       \<and> step reg (RequestHandled raw pf) = reg"
  using assms(3) by (simp add: step_def handle_request_proxied [OF assms(1,2)])

lemma registered_prefix_reachable:
  assumes "reachable reg"
  shows "matches_registered_prefix reg pth \<longleftrightarrow>
           mount_match ''/api/users'' pth \<or> mount_match ''/api/auth'' pth
           \<or> mount_match ''/api/products'' pth \<or> mount_match ''/api/orders'' pth"
proof -
  have "matches_registered_prefix reg pth \<longleftrightarrow>
          list_ex (list_ex (\<lambda>p. mount_match p pth)) (map (\<lambda>e. routes (snd e)) reg)"
    by (simp add: matches_registered_prefix_def services_values_def list_ex_iff)
  then show ?thesis
    by (auto simp add: reachable_routes [OF assms])
qed

lemma request_latency_frame:
  "map (\<lambda>e. (fst e, responseTime (snd e))) (step reg (RequestHandled raw pf)) =
   map (\<lambda>e. (fst e, responseTime (snd e))) reg"
proof -
  have "map (\<lambda>e. (fst e, responseTime (snd e))) (mutate k f reg) =
        map (\<lambda>e. (fst e, responseTime (snd e))) reg"
    if "\<And>s. responseTime (f s) = responseTime s" for k f
    by (induction reg) (auto simp: that)
  with request_step_shape [of reg raw pf] show ?thesis
    by auto
qed

lemma healthy_registry_value:
  "healthy_registry =
     [(''user-service'', user_descriptor\<lparr>status := ''healthy'', lastHealthCheck := Some ''T0'',
          responseTime := Some ''12ms''\<rparr>),
      (''product-service'',
        \<lparr>name = ''Product Service'', url = ''http://localhost:3003'',
         health = ''http://localhost:3003/health'', routes = [''/api/products''],
         status = ''unknown'', lastHealthCheck = None, responseTime = None\<rparr>),
      (''order-service'',
        \<lparr>name = ''Order Service'', url = ''http://localhost:3004'',
         health = ''http://localhost:3004/health'', routes = [''/api/orders''],
         status = ''unknown'', lastHealthCheck = None, responseTime = None\<rparr>)]"
  by (simp add: eval_defs sample_defs)

lemma healthy_registry_user:
  "services_get healthy_registry ''user-service'' =
     Some (user_descriptor\<lparr>status := ''healthy'', lastHealthCheck := Some ''T0'',
          responseTime := Some ''12ms''\<rparr>)"
  by (simp add: healthy_registry_value services_get_def)

lemma initial_registry_user:
  "services_get initial_registry ''user-service'' = Some user_descriptor"
  by (simp add: eval_defs sample_defs)

lemma users_request_route: "route gateway_proxies users_request = ProxyTo users_proxy"
  by (simp add: eval_defs)

lemma mount_prefix_of:
  assumes "mount_match p pth" and "mount_match p' pth" and "length p \<le> length p'"
  shows "take (length p) p' = p"
proof -
  from assms(1) have a: "take (length p) (lower pth) = p"
    by (simp add: mount_match_def Let_def)
  from assms(2) have b: "take (length p') (lower pth) = p'"
    by (simp add: mount_match_def Let_def)
  from assms(3) have "take (length p) (take (length p') (lower pth)) = take (length p) (lower pth)"
    by (simp add: min_def)
  with a b show ?thesis by simp
qed

lemma mount_not_endpoint:
  assumes "mount_match p (path raw)" and "take 5 p = ''/api/''"
  shows "\<not> gateway_endpoint raw"
proof -
  from mount_under_api [OF assms] have t: "take 5 (lower (path raw)) = ''/api/''"
    by (simp add: api_match_def)
  have l: "lower ''/'' = ''/''" "lower [] = []"
    by (simp_all add: lower_def lower_char_def)
  have 1: "\<not> route_match ''/health'' (path raw)"
  proof
    assume "route_match ''/health'' (path raw)"
    then have "lower (path raw) = ''/health'' \<or> lower (path raw) = ''/health/''"
      by (simp add: route_match_def)
    with t show False by auto
  qed
  have 2: "\<not> route_match ''/services'' (path raw)"
  proof
    assume "route_match ''/services'' (path raw)"
    then have "lower (path raw) = ''/services'' \<or> lower (path raw) = ''/services/''"
      by (simp add: route_match_def)
    with t show False by auto
  qed
  have 3: "\<not> route_match ''/'' (path raw)"
  proof
    assume "route_match ''/'' (path raw)"
    then have "path raw = ''/'' \<or> path raw = []"
      by (simp add: route_match_def)
    with t l show False by auto
  qed
  from 1 2 3 show ?thesis
    by (simp add: gateway_endpoint_def)
qed

lemma mounted_route:
  assumes "(p, px) \<in> set gateway_proxies" and "mount_match p (path raw)"
      and "req_method raw \<noteq> ''OPTIONS''"
  shows "route gateway_proxies raw = ProxyTo px"
proof -
  from assms(1) have "take 5 p = ''/api/''"
    by (auto simp: gateway_proxies_def)
  from mount_not_endpoint [OF assms(2) this]
  have e: "\<not> (is_get raw \<and> route_match ''/health'' (path raw))"
    "\<not> (is_get raw \<and> route_match ''/'' (path raw))"
    "\<not> (is_get raw \<and> route_match ''/services'' (path raw))"
    by (auto simp: gateway_endpoint_def)
  have u: "\<not> mount_match ''/api/users'' (path raw)" if "mount_match ''/api/products'' (path raw)"
  proof
    assume "mount_match ''/api/users'' (path raw)"
    from mount_prefix_of [OF this that] show False by simp
  qed
  have u': "\<not> mount_match ''/api/users'' (path raw)" if "mount_match ''/api/orders'' (path raw)"
  proof
    assume "mount_match ''/api/users'' (path raw)"
    from mount_prefix_of [OF this that] show False by simp
  qed
  have v: "\<not> mount_match ''/api/products'' (path raw)" if "mount_match ''/api/orders'' (path raw)"
  proof
    assume "mount_match ''/api/products'' (path raw)"
    from mount_prefix_of [OF that this] show False by simp
  qed
  from assms(1) consider
      "p = ''/api/users''" "px = \<lparr>target = ''http://localhost:3002'', bound_key = ''user-service''\<rparr>"
    | "p = ''/api/products''" "px = \<lparr>target = ''http://localhost:3003'', bound_key = ''product-service''\<rparr>"
    | "p = ''/api/orders''" "px = \<lparr>target = ''http://localhost:3004'', bound_key = ''order-service''\<rparr>"
    by (auto simp: gateway_proxies_def)
  then show ?thesis
  proof cases
    case 1
    with assms(2,3) e show ?thesis
      by (simp add: route_def gateway_proxies_def)
  next
    case 2
    with assms(2,3) e u show ?thesis
      by (simp add: route_def gateway_proxies_def)
  next
    case 3
    with assms(2,3) e u' v show ?thesis
      by (simp add: route_def gateway_proxies_def)
  qed
qed

lemma entry_mutate_frame:
  assumes "\<And>s. g (f s) = g s"
  shows "map (\<lambda>e. (fst e, g (snd e))) (mutate k f reg) = map (\<lambda>e. (fst e, g (snd e))) reg"
  by (induction reg) (auto simp: assms)

lemma step_static:
  "map (\<lambda>e. (fst e, url (snd e), routes (snd e))) (step reg ev) =
   map (\<lambda>e. (fst e, url (snd e), routes (snd e))) reg"
  using step_shape [of reg ev] entry_mutate_frame [where g = "\<lambda>s. (url s, routes s)"]
  by auto

lemma reachable_static:
  assumes "reachable reg"
  shows "map (\<lambda>e. (fst e, url (snd e), routes (snd e))) reg =
     [(''user-service'', ''http://localhost:3002'', [''/api/users'', ''/api/auth'']),
      (''product-service'', ''http://localhost:3003'', [''/api/products'']),
      (''order-service'', ''http://localhost:3004'', [''/api/orders''])]"
  using assms
proof (induction rule: reachable.induct)
  case reachable_init
  show ?case
    by (simp add: initial_registry_def registerServices_def services_set_def)
next
  case (reachable_step reg ev)
  then show ?case by (simp add: step_static)
qed

lemma static_of_entry:
  assumes "services_get reg k = Some service"
  shows "(k, url service, routes service) \<in> set (map (\<lambda>e. (fst e, url (snd e), routes (snd e))) reg)"
proof -
  from assms have "(k, service) \<in> set reg"
    by (auto simp: services_get_def dest: map_of_SomeD)
  then show ?thesis by force
qed

lemma proxy_of_registered:
  assumes "reachable reg" and "(p, px) \<in> set gateway_proxies"
      and "services_get reg (bound_key px) = Some service"
  shows "target px = url service \<and> p \<in> set (routes service)"
  using static_of_entry [OF assms(3)] assms(2)
  by (auto simp: reachable_static [OF assms(1)] gateway_proxies_def)

lemma mounted_prefix_proxied:
  assumes "(p, px) \<in> set gateway_proxies" and "mount_match p (path raw)"
      and "reachable reg" and "backend pf = BackendResponse st hs b"
      and "req_method raw \<noteq> ''OPTIONS''"
  shows "\<exists>reg' res fwd service.
           handle_request gateway_proxies raw pf reg = Inr (reg', res, Some fwd)
         \<and> services_get reg (bound_key px) = Some service
         \<and> p \<in> set (routes service)
         \<and> fwd_target fwd = url service
         \<and> map_of (fwd_headers fwd) ''X-Gateway-Request-ID'' = Some (uuid pf)
         \<and> map_of (fwd_headers fwd) ''X-Gateway-Timestamp'' = Some (t_tag pf)
         \<and> map_of (fwd_headers fwd) ''X-Gateway-Version'' = Some ''1.0.0''
         \<and> map_of (fwd_headers fwd) ''X-Forwarded-By'' = Some ''api-gateway''
         \<and> map_of (res_headers res) ''X-Gateway-Service'' = Some (bound_key px)
         \<and> map_of (res_headers res) ''X-Gateway-Request-ID'' = Some (uuid pf)"
proof -
  have r: "route gateway_proxies raw = ProxyTo px"
    using assms(1,2,5) by (rule mounted_route)
  from reachable_registered [OF assms(3,1)] obtain service
    where g: "services_get reg (bound_key px) = Some service" ..
  from gateway_route_tagged [OF r] have t: "requestId (tag_request pf raw) = Some (uuid pf)"
    by (simp add: tag_request_def)
  from proxy_of_registered [OF assms(3,1) g] g t assms(4) show ?thesis
    by (simp add: handle_request_proxied [OF r g] onProxyRes_def Let_def map_of_assign)
qed

lemma step_keeps_known:
  assumes "status_of reg k \<noteq> Some ''unknown''"
  shows "status_of (step reg ev) k \<noteq> Some ''unknown''"
proof -
  from step_shape [of reg ev] show ?thesis
  proof (elim disjE exE conjE)
    assume "step reg ev = reg"
    with assms show ?thesis by simp
  next
    fix k' f
    assume m: "step reg ev = mutate k' f reg"
      and f: "\<forall>s. (status (f s) = ''healthy'' \<or> status (f s) = ''unhealthy'')
               \<and> name (f s) = name s \<and> url (f s) = url s \<and> health (f s) = health s
               \<and> routes (f s) = routes s"
    have n: "status (f s) \<noteq> ''unknown''" for s
    proof -
      from f have "status (f s) = ''healthy'' \<or> status (f s) = ''unhealthy''"
        by blast
      then show ?thesis by auto
    qed
    show ?thesis
    proof (cases "services_get reg k")
      case None
      then show ?thesis
        by (auto simp: m status_of_def services_get_mutate)
    next
      case (Some s)
      from assms Some have "status s \<noteq> ''unknown''"
        by (simp add: status_of_def)
      with n [of s] Some show ?thesis
        by (auto simp: m status_of_def services_get_mutate)
    qed
  qed
qed

lemma run_keeps_known:
  assumes "status_of reg k \<noteq> Some ''unknown''"
  shows "status_of (run reg evs) k \<noteq> Some ''unknown''"
  using assms unfolding run_def
  by (induction evs arbitrary: reg) (simp_all add: step_keeps_known)

lemma probe_makes_known:
  "status_of (step reg (ProbeSettled k p)) k \<noteq> Some ''unknown''"
  by (auto simp: status_of_def step_def checkServiceHealth_def services_get_mutate
      split: option.splits settled.splits)

lemma run_after_probe:
  assumes "ProbeSettled k p \<in> set evs"
  shows "status_of (run reg evs) k \<noteq> Some ''unknown''"
  using assms
proof (induction evs arbitrary: reg)
  case Nil
  then show ?case by simp
next
  case (Cons ev evs)
  show ?case
  proof (cases "ev = ProbeSettled k p")
    case True
    from run_keeps_known [OF probe_makes_known, of reg k p evs] True show ?thesis
      by (simp add: run_def)
  next
    case False
    with Cons.prems have "ProbeSettled k p \<in> set evs" by simp
    from Cons.IH [OF this, of "step reg ev"] show ?thesis
      by (simp add: run_def)
  qed
qed

lemma run_keys: "map fst (run reg evs) = map fst reg"
  unfolding run_def by (induction evs arbitrary: reg) (simp_all add: step_keys)

lemma initial_pass_settled:
  assumes "wf_registry reg"
      and "\<forall>k \<in> set (startHealthMonitoring reg). \<exists>p. ProbeSettled k p \<in> set evs"
  shows "\<forall>e \<in> set (run reg evs). status (snd e) \<noteq> ''unknown''"
proof
  fix e
  assume e: "e \<in> set (run reg evs)"
  then have "fst e \<in> set (map fst reg)"
    by (metis run_keys image_eqI list.set_map)
  with assms(2) obtain p where "ProbeSettled (fst e) p \<in> set evs"
    by (auto simp: startHealthMonitoring_def services_keys_def)
  from run_after_probe [OF this, of reg]
  have n: "status_of (run reg evs) (fst e) \<noteq> Some ''unknown''" .
  from assms(1) have "distinct (map fst (run reg evs))"
    by (simp add: run_keys wf_registry_def)
  with e have "map_of (run reg evs) (fst e) = Some (snd e)"
    by simp
  with n show "status (snd e) \<noteq> ''unknown''"
    by (simp add: status_of_def services_get_def)
qed

lemma unrouted_reaches_fallback:
  assumes "reachable reg"
      and "\<not> matches_registered_prefix reg (path raw)"
      and "\<not> gateway_endpoint raw"
      and "req_method raw \<noteq> ''OPTIONS''"
  shows "route gateway_proxies raw = Fallback"
proof -
  from assms(1,2) have "find (\<lambda>(p, px). mount_match p (path raw)) gateway_proxies = None"
    by (simp add: registered_prefix_reachable gateway_proxies_def)
  with assms(3,4) show ?thesis
    by (auto simp: route_def gateway_endpoint_def)
qed

section \<open>The claims\<close>

subsection \<open>C1: a backend answer of 500 or more\<close>

text \<open>
  Claim C1 says that a proxied request whose backend answers with a status of 500 or more
  marks the service unhealthy and gets a synthesized 503 whose \<open>service\<close> field is the
  service identifier, and that a later request answered with 200 marks it healthy again and
  relays the body.

  The code does the second half and not the first. \<open>onProxyRes\<close> has one branch, for a
  status below 500; an answer of 500 or more is an answer all the same, so the library relays
  it and \<open>onError\<close> does not run. The counterexample: a gateway whose user service
  is healthy forwards \<open>GET /api/users/1\<close>, the backend answers 500 with body \<open>boom\<close>; the
  service is still healthy and the caller gets the 500 and \<open>boom\<close>.
\<close>

theorem C1_counterexample:
  "status_of healthy_registry ''user-service'' = Some ''healthy''
   \<and> status_of (step healthy_registry
        (RequestHandled users_request (readings (BackendResponse 500 [] ''boom''))))
        ''user-service'' = Some ''healthy''
   \<and> map_option res_status (answered (handle_request gateway_proxies users_request
        (readings (BackendResponse 500 [] ''boom'')) healthy_registry)) = Some 500
   \<and> map_option res_body (answered (handle_request gateway_proxies users_request
        (readings (BackendResponse 500 [] ''boom'')) healthy_registry)) = Some (Raw ''boom'')"
  by (simp add: eval_defs)

text \<open>
  Claim C1, amended: for every request routed to a proxy whose service is registered,
  (1) a backend answer with status 500 or more leaves the registry as it is and is relayed
  with its own status and body, its headers extended by \<open>X-Gateway-Service\<close> (the service
  identifier) and \<open>X-Gateway-Request-ID\<close>; (2) an exchange that breaks with an error the
  proxy reports to \<open>onError\<close> (a refused or reset connection) marks the service unhealthy
  and the caller gets a 503 whose body, left out for a HEAD request, has the service
  identifier in its \<open>service\<close> field; (3) a backend answer with a status below 500, so
  also 200, marks the service healthy and is relayed as in (1). What happens when the backend
  stays silent is not part of the statement.
\<close>

theorem C1_relay_and_recovery:
  assumes "route gateway_proxies raw = ProxyTo px"
      and "services_get reg (bound_key px) = Some service"
  shows "(500 \<le> st \<longrightarrow>
            (\<exists>fwd.
               handle_request gateway_proxies raw (pf\<lparr>backend := BackendResponse st hs b\<rparr>) reg =
                 Inr (reg,
                      \<lparr>res_status = st,
                       res_headers = assign ''X-Gateway-Request-ID'' (uuid pf)
                                       (assign ''X-Gateway-Service'' (bound_key px) hs),
                       res_body = Raw b\<rparr>,
                      fwd)))
       \<and> (\<exists>reg' res fwd.
            handle_request gateway_proxies raw (pf\<lparr>backend := TransportError msg\<rparr>) reg =
              Inr (reg', res, fwd)
            \<and> status_of reg' (bound_key px) = Some ''unhealthy''
            \<and> res_status res = 503
            \<and> (req_method raw \<noteq> ''HEAD'' \<longrightarrow>
                  body_at res [''service''] = Some (JStr (bound_key px))))
       \<and> (st' < 500 \<longrightarrow>
            (\<exists>reg' fwd.
               handle_request gateway_proxies raw (pf\<lparr>backend := BackendResponse st' hs b\<rparr>) reg =
                 Inr (reg',
                      \<lparr>res_status = st',
                       res_headers = assign ''X-Gateway-Request-ID'' (uuid pf)
                                       (assign ''X-Gateway-Service'' (bound_key px) hs),
                       res_body = Raw b\<rparr>,
                      fwd)
               \<and> status_of reg' (bound_key px) = Some ''healthy''))"
proof -
  have t: "requestId (tag_request (pf\<lparr>backend := x\<rparr>) raw) = Some (uuid pf)" for x
    using gateway_route_tagged [OF assms(1)] by (simp add: tag_request_def)
  have 1: "\<exists>fwd.
      handle_request gateway_proxies raw (pf\<lparr>backend := BackendResponse st hs b\<rparr>) reg =
        Inr (reg,
             \<lparr>res_status = st,
              res_headers = assign ''X-Gateway-Request-ID'' (uuid pf)
                              (assign ''X-Gateway-Service'' (bound_key px) hs),
              res_body = Raw b\<rparr>,
             fwd)"
    if "500 \<le> st"
    using that
    by (simp add: handle_request_proxied [OF assms] onProxyRes_def Let_def t)
  have 2: "\<exists>reg' res fwd.
      handle_request gateway_proxies raw (pf\<lparr>backend := TransportError msg\<rparr>) reg =
        Inr (reg', res, fwd)
      \<and> status_of reg' (bound_key px) = Some ''unhealthy''
      \<and> res_status res = 503
      \<and> (req_method raw \<noteq> ''HEAD'' \<longrightarrow>
            body_at res [''service''] = Some (JStr (bound_key px)))"
    using assms(2)
    by (simp add: handle_request_proxied [OF assms] onError_def Let_def status_of_def
        services_get_mutate body_at_def field_def send_def)
  have 3: "\<exists>reg' fwd.
      handle_request gateway_proxies raw (pf\<lparr>backend := BackendResponse st' hs b\<rparr>) reg =
        Inr (reg',
             \<lparr>res_status = st',
              res_headers = assign ''X-Gateway-Request-ID'' (uuid pf)
                              (assign ''X-Gateway-Service'' (bound_key px) hs),
              res_body = Raw b\<rparr>,
             fwd)
      \<and> status_of reg' (bound_key px) = Some ''healthy''"
    if "st' < 500"
    using that assms(2)
    by (simp add: handle_request_proxied [OF assms] onProxyRes_def Let_def status_of_def
        services_get_mutate t)
  show ?thesis
    by (intro conjI impI) (rule 1, assumption, rule 2, rule 3, assumption)
qed

theorem C1_relay_and_recovery_witness:
  "(\<exists>fwd.
      handle_request gateway_proxies users_request
        (readings (BackendResponse 500 [] ''boom'')) initial_registry =
        Inr (initial_registry,
             \<lparr>res_status = 500,
              res_headers = [(''X-Gateway-Service'', ''user-service''),
                             (''X-Gateway-Request-ID'', ''req-1'')],
              res_body = Raw ''boom''\<rparr>,
             fwd))
   \<and> (\<exists>reg' res fwd.
        handle_request gateway_proxies users_request
          (readings (TransportError ''ECONNREFUSED'')) initial_registry = Inr (reg', res, fwd)
        \<and> status_of reg' ''user-service'' = Some ''unhealthy''
        \<and> res_status res = 503
        \<and> body_at res [''service''] = Some (JStr ''user-service''))
   \<and> (\<exists>reg' fwd.
        handle_request gateway_proxies users_request
          (readings (BackendResponse 200 [] ''ok'')) initial_registry =
          Inr (reg',
               \<lparr>res_status = 200,
                res_headers = [(''X-Gateway-Service'', ''user-service''),
                               (''X-Gateway-Request-ID'', ''req-1'')],
                res_body = Raw ''ok''\<rparr>,
               fwd)
        \<and> status_of reg' ''user-service'' = Some ''healthy'')"
proof -
  have r: "route gateway_proxies users_request = ProxyTo users_proxy"
    by (rule users_request_route)
  have g: "services_get initial_registry (bound_key users_proxy) = Some user_descriptor"
    by (simp add: users_proxy_def initial_registry_user)
  have a: "500 \<le> (500::nat)" and b: "(200::nat) < 500"
    and m: "req_method users_request \<noteq> ''HEAD''"
    by (simp_all add: users_request_def)
  note inst = C1_relay_and_recovery [OF r g, where st = 500 and st' = 200 and hs = "[]"
      and msg = "''ECONNREFUSED''" and pf = "readings (TransportError ''x'')"]
  from inst [where b = "''boom''"] a
  have c1: "\<exists>fwd.
      handle_request gateway_proxies users_request
        (readings (BackendResponse 500 [] ''boom'')) initial_registry =
        Inr (initial_registry,
             \<lparr>res_status = 500,
              res_headers = [(''X-Gateway-Service'', ''user-service''),
                             (''X-Gateway-Request-ID'', ''req-1'')],
              res_body = Raw ''boom''\<rparr>,
             fwd)"
    by (simp add: readings_def users_proxy_def)
  from inst [where b = "''boom''"] m
  have c2: "\<exists>reg' res fwd.
        handle_request gateway_proxies users_request
          (readings (TransportError ''ECONNREFUSED'')) initial_registry = Inr (reg', res, fwd)
        \<and> status_of reg' ''user-service'' = Some ''unhealthy''
        \<and> res_status res = 503
        \<and> body_at res [''service''] = Some (JStr ''user-service'')"
    by (simp add: readings_def users_proxy_def)
  from inst [where b = "''ok''"] b
  have c3: "\<exists>reg' fwd.
        handle_request gateway_proxies users_request
          (readings (BackendResponse 200 [] ''ok'')) initial_registry =
          Inr (reg',
               \<lparr>res_status = 200,
                res_headers = [(''X-Gateway-Service'', ''user-service''),
                               (''X-Gateway-Request-ID'', ''req-1'')],
                res_body = Raw ''ok''\<rparr>,
               fwd)
        \<and> status_of reg' ''user-service'' = Some ''healthy''"
    by (simp add: readings_def users_proxy_def)
  from c1 c2 c3 show ?thesis by blast
qed

subsection \<open>C2: the health endpoint\<close>

text \<open>
  Claim C2: in every state of the registry, \<open>GET /health\<close> answers 200 with overall status
  \<open>healthy\<close> if and only if every descriptor's status is \<open>healthy\<close>, and otherwise 503
  with \<open>degraded\<close>; the body holds, for each service, its status, last-check time and
  latency. The registry is a \<open>Map\<close>, so its keys are distinct.
\<close>

theorem C2_health_endpoint:
  assumes "req_method raw = ''GET''" and "path raw = ''/health''" and "wf_registry reg"
  shows "\<exists>res. handle_request ps raw pf reg = Inr (reg, res, None)
     \<and> (res_status res = 200 \<longleftrightarrow> (\<forall>s \<in> set (services_values reg). status s = ''healthy''))
     \<and> res_status res =
         (if \<forall>s \<in> set (services_values reg). status s = ''healthy'' then 200 else 503)
     \<and> body_at res [''status''] =
         Some (JStr (if \<forall>s \<in> set (services_values reg). status s = ''healthy''
                     then ''healthy'' else ''degraded''))
     \<and> (\<forall>k s. services_get reg k = Some s \<longrightarrow>
            body_at res [''services'', k, ''status''] = Some (JStr (status s))
          \<and> body_at res [''services'', k, ''lastHealthCheck''] = Some (nullable (lastHealthCheck s))
          \<and> body_at res [''services'', k, ''responseTime''] = Some (nullable (responseTime s)))"
proof -
  let ?res = "health_handler pf reg"
  have d: "handle_request ps raw pf reg = Inr (reg, ?res, None)"
    using assms(1,2) by (rule dispatch_health)
  have st: "res_status ?res =
      (if \<forall>s \<in> set (services_values reg). status s = ''healthy'' then 200 else 503)"
    by (simp add: health_handler_def overallHealth_iff)
  have bd: "body_at ?res [''status''] =
      Some (JStr (if \<forall>s \<in> set (services_values reg). status s = ''healthy''
                  then ''healthy'' else ''degraded''))"
    by (simp add: health_handler_def overallHealth_iff body_at_def field_def)
  have ent: "body_at ?res [''services'', k, ''status''] = Some (JStr (status s))
          \<and> body_at ?res [''services'', k, ''lastHealthCheck''] = Some (nullable (lastHealthCheck s))
          \<and> body_at ?res [''services'', k, ''responseTime''] = Some (nullable (responseTime s))"
    if "services_get reg k = Some s" for k s
    using body_at_under [OF health_entry_at [OF assms(3) that, of pf], of "[f]" for f]
    by (simp add: health_entry_def field_def)
  from d st bd ent show ?thesis by simp
qed

theorem C2_health_endpoint_witness:
  "req_method health_request = ''GET'' \<and> path health_request = ''/health''
   \<and> wf_registry healthy_registry
   \<and> (\<exists>res. handle_request gateway_proxies health_request (readings (TransportError []))
          healthy_registry = Inr (healthy_registry, res, None)
        \<and> res_status res = 503
        \<and> body_at res [''status''] = Some (JStr ''degraded'')
        \<and> body_at res [''services'', ''user-service'', ''status''] = Some (JStr ''healthy'')
        \<and> body_at res [''services'', ''user-service'', ''responseTime''] = Some (JStr ''12ms''))"
proof -
  have m: "req_method health_request = ''GET''" and p: "path health_request = ''/health''"
    by (simp_all add: health_request_def)
  have w: "wf_registry healthy_registry"
    by (simp add: wf_registry_def healthy_registry_value)
  have g: "services_get healthy_registry ''user-service'' =
      Some (user_descriptor\<lparr>status := ''healthy'', lastHealthCheck := Some ''T0'',
          responseTime := Some ''12ms''\<rparr>)"
    by (simp add: healthy_registry_value services_get_def)
  from C2_health_endpoint [OF m p w, of gateway_proxies "readings (TransportError [])"]
  obtain res where r: "handle_request gateway_proxies health_request (readings (TransportError []))
          healthy_registry = Inr (healthy_registry, res, None)"
    and s: "res_status res =
         (if \<forall>s \<in> set (services_values healthy_registry). status s = ''healthy''
          then 200 else 503)"
    and b: "body_at res [''status''] =
         Some (JStr (if \<forall>s \<in> set (services_values healthy_registry). status s = ''healthy''
                     then ''healthy'' else ''degraded''))"
    and e: "\<forall>k s. services_get healthy_registry k = Some s \<longrightarrow>
            body_at res [''services'', k, ''status''] = Some (JStr (status s))
          \<and> body_at res [''services'', k, ''lastHealthCheck''] = Some (nullable (lastHealthCheck s))
          \<and> body_at res [''services'', k, ''responseTime''] = Some (nullable (responseTime s))"
    by blast
  have n: "\<not> (\<forall>s \<in> set (services_values healthy_registry). status s = ''healthy'')"
    by (simp add: healthy_registry_value services_values_def)
  from e g have
    "body_at res [''services'', ''user-service'', ''status''] = Some (JStr ''healthy'')
     \<and> body_at res [''services'', ''user-service'', ''responseTime''] = Some (JStr ''12ms'')"
    by (simp add: nullable_def user_descriptor_def)
  with m p w r s b n show ?thesis
    by simp
qed

subsection \<open>C3: observations that report a timeout\<close>

text \<open>
  Claim C3 says that after an observation that reports a timeout, a probe or a transport
  failure on the proxy path, the service is unhealthy and its \<open>responseTime\<close> is the
  sentinel \<open>timeout\<close>. The prober does that; \<open>onError\<close>, the proxy's observer of
  transport failures, writes \<open>status\<close> and \<open>lastHealthCheck\<close> only. The counterexample:
  the user service was probed at 12 ms, then a forwarded request finds the connection
  refused; the service is unhealthy and its \<open>responseTime\<close> is still \<open>12ms\<close>.
\<close>

theorem C3_counterexample:
  "responseTime_of healthy_registry ''user-service'' = Some (Some ''12ms'')
   \<and> status_of (step healthy_registry
        (RequestHandled users_request (readings (TransportError ''ECONNREFUSED''))))
        ''user-service'' = Some ''unhealthy''
   \<and> responseTime_of (step healthy_registry
        (RequestHandled users_request (readings (TransportError ''ECONNREFUSED''))))
        ''user-service'' = Some (Some ''12ms'')"
  by (simp add: eval_defs)

text \<open>
  Claim C3, amended: for a registered service, whatever its descriptor held before, (1) a
  probe that gets no response (a timeout or a transport failure) leaves it unhealthy with
  \<open>responseTime\<close> \<open>timeout\<close> and the check time of the probe; (2) a forwarded request
  whose exchange breaks with an error the proxy reports to \<open>onError\<close> (a refused or reset
  connection) leaves it unhealthy with the time of the failure as check time, and every other
  field, so also \<open>responseTime\<close>, as it was. What a forwarded request that times out does
  is not part of the statement.
\<close>

theorem C3_timeout_observations:
  assumes "services_get reg k = Some s"
  shows "(outcome p = NoResponse \<longrightarrow>
            services_get (checkServiceHealth k p reg) k =
              Some (s\<lparr>status := ''unhealthy'', lastHealthCheck := Some (now p),
                      responseTime := Some ''timeout''\<rparr>))
       \<and> (route gateway_proxies raw = ProxyTo px \<and> bound_key px = k \<longrightarrow>
            services_get (step reg (RequestHandled raw (pf\<lparr>backend := TransportError msg\<rparr>))) k =
              Some (s\<lparr>status := ''unhealthy'', lastHealthCheck := Some (t_write pf)\<rparr>))"
proof (intro conjI impI)
  assume "outcome p = NoResponse"
  with assms show "services_get (checkServiceHealth k p reg) k =
      Some (s\<lparr>status := ''unhealthy'', lastHealthCheck := Some (now p),
              responseTime := Some ''timeout''\<rparr>)"
    by (simp add: checkServiceHealth_def axios_get_def services_get_mutate)
next
  assume a: "route gateway_proxies raw = ProxyTo px \<and> bound_key px = k"
  then have r: "route gateway_proxies raw = ProxyTo px" and g: "services_get reg (bound_key px) = Some s"
    using assms by simp_all
  show "services_get (step reg (RequestHandled raw (pf\<lparr>backend := TransportError msg\<rparr>))) k =
      Some (s\<lparr>status := ''unhealthy'', lastHealthCheck := Some (t_write pf)\<rparr>)"
    using a assms
    by (simp add: step_def handle_request_proxied [OF r g] onError_def services_get_mutate)
qed

theorem C3_timeout_observations_witness:
  "services_get healthy_registry ''user-service'' =
     Some (user_descriptor\<lparr>status := ''healthy'', lastHealthCheck := Some ''T0'',
          responseTime := Some ''12ms''\<rparr>)
   \<and> services_get (checkServiceHealth ''user-service''
        \<lparr>outcome = NoResponse, elapsed = 5001, now = ''T1''\<rparr> healthy_registry)
        ''user-service'' =
       Some (user_descriptor\<lparr>status := ''unhealthy'', lastHealthCheck := Some ''T1'',
          responseTime := Some ''timeout''\<rparr>)
   \<and> services_get (step healthy_registry
        (RequestHandled users_request (readings (TransportError ''ECONNREFUSED''))))
        ''user-service'' =
       Some (user_descriptor\<lparr>status := ''unhealthy'', lastHealthCheck := Some ''T2'',
          responseTime := Some ''12ms''\<rparr>)"
proof -
  have r: "route gateway_proxies users_request = ProxyTo users_proxy \<and>
      bound_key users_proxy = ''user-service''"
    by (simp add: users_request_route users_proxy_def)
  from C3_timeout_observations [OF healthy_registry_user,
      where p = "\<lparr>outcome = NoResponse, elapsed = 5001, now = ''T1''\<rparr>"
        and raw = users_request and px = users_proxy
        and pf = "readings (TransportError ''ECONNREFUSED'')" and msg = "''ECONNREFUSED''"] r
  show ?thesis
    by (simp add: healthy_registry_user readings_def)
qed

subsection \<open>C4: probes that complete with a status\<close>

text \<open>
  Claim C4 says that a probe answered with a 2xx status marks the service healthy, and one
  answered with any other status marks it unhealthy, both with the elapsed latency. The code
  compares the status with 200 and lets \<open>axios\<close> reject a status of 500 or more.
  The counterexample: a probe answered with 204 leaves the service unhealthy, and a probe
  answered with 503 leaves \<open>responseTime\<close> at \<open>timeout\<close>, not at the 12 ms that elapsed.
\<close>

theorem C4_counterexample:
  "status_of (checkServiceHealth ''user-service''
       \<lparr>outcome = HttpStatus 204, elapsed = 12, now = ''T0''\<rparr> initial_registry)
     ''user-service'' = Some ''unhealthy''
   \<and> responseTime_of (checkServiceHealth ''user-service''
       \<lparr>outcome = HttpStatus 503, elapsed = 12, now = ''T0''\<rparr> initial_registry)
     ''user-service'' = Some (Some ''timeout'')"
  by (simp add: eval_defs)

text \<open>
  Claim C4, amended: for a registered service and a probe answered with status \<open>st\<close>,
  (1) \<open>st = 200\<close> leaves the service healthy with the elapsed latency; (2) any other status
  below 500 leaves it unhealthy with the elapsed latency; (3) a status of 500 or more leaves it
  unhealthy with \<open>responseTime\<close> \<open>timeout\<close>.
\<close>

theorem C4_probe_with_status:
  assumes "services_get reg k = Some s" and "outcome p = HttpStatus st"
  shows "(st = 200 \<longrightarrow>
            services_get (checkServiceHealth k p reg) k =
              Some (s\<lparr>status := ''healthy'', lastHealthCheck := Some (now p),
                      responseTime := Some (number_string (elapsed p) @ ''ms'')\<rparr>))
       \<and> (st \<noteq> 200 \<and> st < 500 \<longrightarrow>
            services_get (checkServiceHealth k p reg) k =
              Some (s\<lparr>status := ''unhealthy'', lastHealthCheck := Some (now p),
                      responseTime := Some (number_string (elapsed p) @ ''ms'')\<rparr>))
       \<and> (500 \<le> st \<longrightarrow>
            services_get (checkServiceHealth k p reg) k =
              Some (s\<lparr>status := ''unhealthy'', lastHealthCheck := Some (now p),
                      responseTime := Some ''timeout''\<rparr>))"
  using assms by (simp add: checkServiceHealth_def axios_get_def services_get_mutate)

theorem C4_probe_with_status_witness:
  "services_get (checkServiceHealth ''user-service''
       \<lparr>outcome = HttpStatus 200, elapsed = 12, now = ''T0''\<rparr> initial_registry)
     ''user-service'' =
     Some (user_descriptor\<lparr>status := ''healthy'', lastHealthCheck := Some ''T0'',
          responseTime := Some ''12ms''\<rparr>)
   \<and> services_get (checkServiceHealth ''user-service''
       \<lparr>outcome = HttpStatus 404, elapsed = 12, now = ''T0''\<rparr> initial_registry)
     ''user-service'' =
     Some (user_descriptor\<lparr>status := ''unhealthy'', lastHealthCheck := Some ''T0'',
          responseTime := Some ''12ms''\<rparr>)
   \<and> services_get (checkServiceHealth ''user-service''
       \<lparr>outcome = HttpStatus 503, elapsed = 12, now = ''T0''\<rparr> initial_registry)
     ''user-service'' =
     Some (user_descriptor\<lparr>status := ''unhealthy'', lastHealthCheck := Some ''T0'',
          responseTime := Some ''timeout''\<rparr>)"
proof -
  have n: "number_string 12 @ ''ms'' = ''12ms''"
    by (simp add: number_string_def)
  have a: "outcome \<lparr>outcome = HttpStatus 200, elapsed = 12, now = ''T0''\<rparr> = HttpStatus 200"
    and b: "outcome \<lparr>outcome = HttpStatus 404, elapsed = 12, now = ''T0''\<rparr> = HttpStatus 404"
    and c: "outcome \<lparr>outcome = HttpStatus 503, elapsed = 12, now = ''T0''\<rparr> = HttpStatus 503"
    by simp_all
  from C4_probe_with_status [OF initial_registry_user a]
    C4_probe_with_status [OF initial_registry_user b]
    C4_probe_with_status [OF initial_registry_user c] n
  show ?thesis
    by simp
qed

subsection \<open>C5: requests under a registered route prefix\<close>

text \<open>
  Claim C5: a request whose path is under one of a service's registered route prefixes is
  proxied to that service. The user service registers \<open>/api/users\<close> and \<open>/api/auth\<close>;
  \<open>setupServiceProxies\<close> mounts a proxy for the first and none for the second. So
  \<open>POST /api/auth/login\<close>, whatever the registry holds, is answered by the fallback with 404
  and nothing is forwarded.
\<close>

theorem C5_auth_prefix_falls_through:
  "map_option routes (services_get initial_registry ''user-service'') =
     Some [''/api/users'', ''/api/auth'']
   \<and> mount_match ''/api/auth'' (path auth_request)
   \<and> handle_request gateway_proxies auth_request pf reg =
       Inr (reg, fallback (tag_request pf auth_request) pf reg, None)
   \<and> res_status (fallback (tag_request pf auth_request) pf reg) = 404"
  by (simp add: initial_registry_def registerServices_def services_set_def services_get_def
      auth_request_def mount_match_def lower_def lower_char_def handle_request_def route_def
      is_get_def route_match_def gateway_proxies_def fallback_def Let_def send_def)

subsection \<open>C6: requests that match no registered route prefix\<close>



subsection \<open>C7: the two snapshots agree\<close>

text \<open>
  Claim C7: in every state of the registry, \<open>GET /health\<close> and \<open>GET /services\<close> list the
  same service identifiers, those of the registry, and report the same status for each.
\<close>

theorem C7_snapshots_agree:
  assumes "req_method raw1 = ''GET''" and "path raw1 = ''/health''"
      and "req_method raw2 = ''GET''" and "path raw2 = ''/services''"
  shows "\<exists>h d. handle_request ps raw1 pf1 reg = Inr (reg, h, None)
     \<and> handle_request ps raw2 pf2 reg = Inr (reg, d, None)
     \<and> set (body_keys h [''services'']) = set (services_keys reg)
     \<and> set (body_keys d [''data'']) = set (services_keys reg)
     \<and> (\<forall>k \<in> set (services_keys reg). \<exists>s. (k, s) \<in> set reg
           \<and> body_at h [''services'', k, ''status''] = Some (JStr (status s))
           \<and> body_at d [''data'', k, ''status''] = Some (JStr (status s)))"
proof -
  let ?h = "health_handler pf1 reg" and ?d = "services_handler pf2 reg"
  have 1: "handle_request ps raw1 pf1 reg = Inr (reg, ?h, None)"
    using assms(1,2) by (rule dispatch_health)
  have 2: "handle_request ps raw2 pf2 reg = Inr (reg, ?d, None)"
    using assms(3,4) by (rule dispatch_services)
  have 3: "\<exists>s. (k, s) \<in> set reg
           \<and> body_at ?h [''services'', k, ''status''] = Some (JStr (status s))
           \<and> body_at ?d [''data'', k, ''status''] = Some (JStr (status s))"
    if "k \<in> set (services_keys reg)" for k
  proof -
    from last_entry [OF that] obtain s
      where s: "(k, s) \<in> set reg" and l: "map_of (rev reg) k = Some s"
      by blast
    have "body_at ?h [''services'', k] = Some (health_entry s)"
      by (simp add: health_services_at l)
    from body_at_under [OF this, of "[''status'']"]
    have a: "body_at ?h [''services'', k, ''status''] = Some (JStr (status s))"
      by (simp add: health_entry_def field_def)
    have "body_at ?d [''data'', k] = Some (services_entry s)"
      by (simp add: services_data_at l)
    from body_at_under [OF this, of "[''status'']"]
    have b: "body_at ?d [''data'', k, ''status''] = Some (JStr (status s))"
      by (simp add: services_entry_def field_def)
    from s a b show ?thesis by blast
  qed
  from 1 2 3 health_services_keys [of pf1 reg] services_data_keys [of pf2 reg]
  show ?thesis by blast
qed

theorem C7_snapshots_agree_witness:
  "req_method health_request = ''GET'' \<and> path health_request = ''/health''
   \<and> req_method services_request = ''GET'' \<and> path services_request = ''/services''
   \<and> (\<exists>h d. handle_request gateway_proxies health_request (readings (TransportError []))
            healthy_registry = Inr (healthy_registry, h, None)
        \<and> handle_request gateway_proxies services_request (readings (TransportError []))
            healthy_registry = Inr (healthy_registry, d, None)
        \<and> set (body_keys h [''services'']) =
            {''user-service'', ''product-service'', ''order-service''}
        \<and> set (body_keys d [''data'']) =
            {''user-service'', ''product-service'', ''order-service''}
        \<and> body_at h [''services'', ''user-service'', ''status''] = Some (JStr ''healthy'')
        \<and> body_at d [''data'', ''user-service'', ''status''] = Some (JStr ''healthy'')
        \<and> body_at h [''services'', ''order-service'', ''status''] = Some (JStr ''unknown'')
        \<and> body_at d [''data'', ''order-service'', ''status''] = Some (JStr ''unknown''))"
proof -
  have m1: "req_method health_request = ''GET''" and p1: "path health_request = ''/health''"
    and m2: "req_method services_request = ''GET''"
    and p2: "path services_request = ''/services''"
    by (simp_all add: sample_defs)
  have k: "services_keys healthy_registry =
      [''user-service'', ''product-service'', ''order-service'']"
    by (simp add: healthy_registry_value services_keys_def)
  from C7_snapshots_agree [OF m1 p1 m2 p2, of gateway_proxies "readings (TransportError [])"
      healthy_registry "readings (TransportError [])"]
  obtain h d where
    1: "handle_request gateway_proxies health_request (readings (TransportError []))
            healthy_registry = Inr (healthy_registry, h, None)"
    and 2: "handle_request gateway_proxies services_request (readings (TransportError []))
            healthy_registry = Inr (healthy_registry, d, None)"
    and 3: "set (body_keys h [''services'']) = set (services_keys healthy_registry)"
    and 4: "set (body_keys d [''data'']) = set (services_keys healthy_registry)"
    and 5: "\<forall>k \<in> set (services_keys healthy_registry). \<exists>s. (k, s) \<in> set healthy_registry
           \<and> body_at h [''services'', k, ''status''] = Some (JStr (status s))
           \<and> body_at d [''data'', k, ''status''] = Some (JStr (status s))"
    by blast
  from 5 have "\<exists>s. (''user-service'', s) \<in> set healthy_registry
           \<and> body_at h [''services'', ''user-service'', ''status''] = Some (JStr (status s))
           \<and> body_at d [''data'', ''user-service'', ''status''] = Some (JStr (status s))"
    by (simp add: k)
  then obtain s where s1: "(''user-service'', s) \<in> set healthy_registry"
    and s2: "body_at h [''services'', ''user-service'', ''status''] = Some (JStr (status s))"
    and s3: "body_at d [''data'', ''user-service'', ''status''] = Some (JStr (status s))"
    by blast
  from s1 have "status s = ''healthy''"
    by (simp add: healthy_registry_value user_descriptor_def)
  with s2 s3 have u: "body_at h [''services'', ''user-service'', ''status''] = Some (JStr ''healthy'')
        \<and> body_at d [''data'', ''user-service'', ''status''] = Some (JStr ''healthy'')"
    by simp
  from 5 have "\<exists>s. (''order-service'', s) \<in> set healthy_registry
           \<and> body_at h [''services'', ''order-service'', ''status''] = Some (JStr (status s))
           \<and> body_at d [''data'', ''order-service'', ''status''] = Some (JStr (status s))"
    by (simp add: k)
  then obtain s' where t1: "(''order-service'', s') \<in> set healthy_registry"
    and t2: "body_at h [''services'', ''order-service'', ''status''] = Some (JStr (status s'))"
    and t3: "body_at d [''data'', ''order-service'', ''status''] = Some (JStr (status s'))"
    by blast
  from t1 have "status s' = ''unknown''"
    by (auto simp add: healthy_registry_value user_descriptor_def)
  with t2 t3 have o: "body_at h [''services'', ''order-service'', ''status''] = Some (JStr ''unknown'')
        \<and> body_at d [''data'', ''order-service'', ''status''] = Some (JStr ''unknown'')"
    by simp
  from 3 4 have "set (body_keys h [''services'']) =
            {''user-service'', ''product-service'', ''order-service''}"
    and "set (body_keys d [''data'']) =
            {''user-service'', ''product-service'', ''order-service''}"
    by (simp_all add: k)
  with m1 p1 m2 p2 1 2 u o show ?thesis
    by blast
qed

subsection \<open>C9: the values of the status field\<close>

text \<open>
  Claim C9: a descriptor's status is \<open>unknown\<close> at registration; in every reachable state
  it is one of \<open>unknown\<close>, \<open>healthy\<close>, \<open>unhealthy\<close>; a step of the gateway, a settled
  probe or a handled request, either leaves the registry alone or assigns to the fields of one
  descriptor, and the status it assigns is \<open>healthy\<close> or \<open>unhealthy\<close>; so a status that
  changes in a step changes to one of these two.
\<close>

theorem C9_status_domain:
  "(\<forall>e \<in> set initial_registry. status (snd e) = ''unknown'')
   \<and> (reachable reg \<longrightarrow>
        (\<forall>e \<in> set reg. status (snd e) \<in> {''unknown'', ''healthy'', ''unhealthy''}))
   \<and> (step reg ev = reg
        \<or> (\<exists>k f. step reg ev = mutate k f reg
              \<and> (\<forall>s. status (f s) \<in> {''healthy'', ''unhealthy''})))
   \<and> (services_get reg k = Some s \<and> services_get (step reg ev) k = Some s'
        \<and> status s' \<noteq> status s \<longrightarrow> status s' \<in> {''healthy'', ''unhealthy''})"
proof (intro conjI impI)
  show "\<forall>e \<in> set initial_registry. status (snd e) = ''unknown''"
    by (simp add: initial_registry_def registerServices_def services_set_def)
next
  assume "reachable reg"
  then show "\<forall>e \<in> set reg. status (snd e) \<in> {''unknown'', ''healthy'', ''unhealthy''}"
  proof (induction rule: reachable.induct)
    case reachable_init
    show ?case
      by (simp add: initial_registry_def registerServices_def services_set_def)
  next
    case (reachable_step reg ev)
    from step_shape [of reg ev] show ?case
    proof (elim disjE exE conjE)
      assume "step reg ev = reg"
      with reachable_step.IH show ?thesis by simp
    next
      fix k f
      assume m: "step reg ev = mutate k f reg"
        and f: "\<forall>s. (status (f s) = ''healthy'' \<or> status (f s) = ''unhealthy'')
               \<and> name (f s) = name s \<and> url (f s) = url s \<and> health (f s) = health s
               \<and> routes (f s) = routes s"
      show ?thesis
      proof
        fix e
        assume "e \<in> set (step reg ev)"
        then have "(fst e, snd e) \<in> set (mutate k f reg)"
          by (simp add: m)
        from mutate_set [OF this] reachable_step.IH f
        show "status (snd e) \<in> {''unknown'', ''healthy'', ''unhealthy''}"
          by force
      qed
    qed
  qed
next
  from step_shape [of reg ev]
  show "step reg ev = reg
        \<or> (\<exists>k f. step reg ev = mutate k f reg
              \<and> (\<forall>s. status (f s) \<in> {''healthy'', ''unhealthy''}))"
    by (elim disjE exE conjE) (simp, rule disjI2, rule exI, rule exI, erule conjI, simp)
next
  assume a: "services_get reg k = Some s \<and> services_get (step reg ev) k = Some s'
        \<and> status s' \<noteq> status s"
  from step_shape [of reg ev] a show "status s' \<in> {''healthy'', ''unhealthy''}"
    by (auto simp: services_get_mutate split: if_splits)
qed

theorem C9_status_domain_witness:
  "reachable healthy_registry
   \<and> list_all (\<lambda>e. status (snd e) \<in> {''unknown'', ''healthy'', ''unhealthy''}) healthy_registry
   \<and> list_all (\<lambda>e. status (snd e) = ''unknown'') initial_registry
   \<and> status_of initial_registry ''user-service'' = Some ''unknown''
   \<and> status_of (step initial_registry (ProbeSettled ''user-service'' probe_ok))
        ''user-service'' = Some ''healthy''"
proof -
  have s: "step initial_registry (ProbeSettled ''user-service'' probe_ok) = healthy_registry"
    by (simp add: step_def healthy_registry_def)
  have r: "reachable healthy_registry"
    using reachable_step [OF reachable_init, of "ProbeSettled ''user-service'' probe_ok"]
    by (simp add: s)
  from C9_status_domain [of healthy_registry]
  have 1: "list_all (\<lambda>e. status (snd e) = ''unknown'') initial_registry"
    and 2: "list_all (\<lambda>e. status (snd e) \<in> {''unknown'', ''healthy'', ''unhealthy''})
      healthy_registry"
    using r by (simp_all add: list_all_iff)
  have 3: "status_of initial_registry ''user-service'' = Some ''unknown''"
    by (simp add: status_of_def initial_registry_user user_descriptor_def)
  have 4: "status_of (step initial_registry (ProbeSettled ''user-service'' probe_ok))
        ''user-service'' = Some ''healthy''"
    by (simp add: s status_of_def healthy_registry_user)
  from r 1 2 3 4 show ?thesis by simp
qed

subsection \<open>C10: who writes the latency\<close>

text \<open>
  Claim C10: handling a request never changes any descriptor's \<open>responseTime\<close>; a forwarded
  request that fails in transport, or is answered with a status below 500, sets \<open>status\<close> and
  \<open>lastHealthCheck\<close> of its service and leaves the other fields; so the latency \<open>/health\<close>
  and \<open>/services\<close> report for a service is the same before and after any request. The only
  other step of the gateway is a settled probe.
\<close>

theorem C10_proxy_keeps_latency:
  "map (\<lambda>e. (fst e, responseTime (snd e))) (step reg (RequestHandled raw pf)) =
     map (\<lambda>e. (fst e, responseTime (snd e))) reg
   \<and> (route gateway_proxies raw = ProxyTo px \<and> services_get reg (bound_key px) = Some s
        \<and> backend pf = TransportError msg \<longrightarrow>
        services_get (step reg (RequestHandled raw pf)) (bound_key px) =
          Some (s\<lparr>status := ''unhealthy'', lastHealthCheck := Some (t_write pf)\<rparr>))
   \<and> (route gateway_proxies raw = ProxyTo px \<and> services_get reg (bound_key px) = Some s
        \<and> backend pf = BackendResponse st hs b \<and> st < 500 \<longrightarrow>
        services_get (step reg (RequestHandled raw pf)) (bound_key px) =
          Some (s\<lparr>status := ''healthy'', lastHealthCheck := Some (t_write pf)\<rparr>))
   \<and> body_at (health_handler pf' (step reg (RequestHandled raw pf)))
        [''services'', k, ''responseTime''] =
       body_at (health_handler pf' reg) [''services'', k, ''responseTime'']
   \<and> body_at (services_handler pf' (step reg (RequestHandled raw pf)))
        [''data'', k, ''responseTime''] =
       body_at (services_handler pf' reg) [''data'', k, ''responseTime'']"
proof (intro conjI impI)
  show "map (\<lambda>e. (fst e, responseTime (snd e))) (step reg (RequestHandled raw pf)) =
     map (\<lambda>e. (fst e, responseTime (snd e))) reg"
    by (rule request_latency_frame)
next
  assume a: "route gateway_proxies raw = ProxyTo px \<and> services_get reg (bound_key px) = Some s
        \<and> backend pf = TransportError msg"
  then have r: "route gateway_proxies raw = ProxyTo px"
    and g: "services_get reg (bound_key px) = Some s" by simp_all
  from a show "services_get (step reg (RequestHandled raw pf)) (bound_key px) =
          Some (s\<lparr>status := ''unhealthy'', lastHealthCheck := Some (t_write pf)\<rparr>)"
    by (simp add: step_def handle_request_proxied [OF r g] onError_def services_get_mutate)
next
  assume a: "route gateway_proxies raw = ProxyTo px \<and> services_get reg (bound_key px) = Some s
        \<and> backend pf = BackendResponse st hs b \<and> st < 500"
  then have r: "route gateway_proxies raw = ProxyTo px"
    and g: "services_get reg (bound_key px) = Some s" by simp_all
  from a show "services_get (step reg (RequestHandled raw pf)) (bound_key px) =
          Some (s\<lparr>status := ''healthy'', lastHealthCheck := Some (t_write pf)\<rparr>)"
    by (simp add: step_def handle_request_proxied [OF r g] onProxyRes_def Let_def
        services_get_mutate)
next
  show "body_at (health_handler pf' (step reg (RequestHandled raw pf)))
        [''services'', k, ''responseTime''] =
       body_at (health_handler pf' reg) [''services'', k, ''responseTime'']"
    by (simp only: health_latency_at request_latency_frame)
next
  show "body_at (services_handler pf' (step reg (RequestHandled raw pf)))
        [''data'', k, ''responseTime''] =
       body_at (services_handler pf' reg) [''data'', k, ''responseTime'']"
    by (simp only: services_latency_at request_latency_frame)
qed

theorem C10_proxy_keeps_latency_witness:
  "map (\<lambda>e. (fst e, responseTime (snd e))) (step healthy_registry
       (RequestHandled users_request (readings (TransportError ''ECONNRESET'')))) =
     [(''user-service'', Some ''12ms''), (''product-service'', None), (''order-service'', None)]
   \<and> services_get (step healthy_registry
       (RequestHandled users_request (readings (TransportError ''ECONNRESET''))))
       ''user-service'' =
       Some (user_descriptor\<lparr>status := ''unhealthy'', lastHealthCheck := Some ''T2'',
          responseTime := Some ''12ms''\<rparr>)
   \<and> services_get (step initial_registry
       (RequestHandled users_request (readings (BackendResponse 404 [] ''no such user''))))
       ''user-service'' =
       Some (user_descriptor\<lparr>status := ''healthy'', lastHealthCheck := Some ''T2''\<rparr>)"
proof -
  have l: "map (\<lambda>e. (fst e, responseTime (snd e))) healthy_registry =
     [(''user-service'', Some ''12ms''), (''product-service'', None), (''order-service'', None)]"
    by (simp add: healthy_registry_value user_descriptor_def)
  have b: "bound_key users_proxy = ''user-service''"
    by (simp add: users_proxy_def)
  from C10_proxy_keeps_latency [where reg = healthy_registry and raw = users_request
      and pf = "readings (TransportError ''ECONNRESET'')" and px = users_proxy
      and s = "user_descriptor\<lparr>status := ''healthy'', lastHealthCheck := Some ''T0'',
          responseTime := Some ''12ms''\<rparr>" and msg = "''ECONNRESET''"]
    users_request_route healthy_registry_user l b
  have 1: "map (\<lambda>e. (fst e, responseTime (snd e))) (step healthy_registry
       (RequestHandled users_request (readings (TransportError ''ECONNRESET'')))) =
     [(''user-service'', Some ''12ms''), (''product-service'', None), (''order-service'', None)]"
    and 2: "services_get (step healthy_registry
       (RequestHandled users_request (readings (TransportError ''ECONNRESET''))))
       ''user-service'' =
       Some (user_descriptor\<lparr>status := ''unhealthy'', lastHealthCheck := Some ''T2'',
          responseTime := Some ''12ms''\<rparr>)"
    by (simp_all add: readings_def)
  from C10_proxy_keeps_latency [where reg = initial_registry and raw = users_request
      and pf = "readings (BackendResponse 404 [] ''no such user'')" and px = users_proxy
      and s = user_descriptor and st = 404 and hs = "[]" and b = "''no such user''"]
    users_request_route initial_registry_user b
  have 3: "services_get (step initial_registry
       (RequestHandled users_request (readings (BackendResponse 404 [] ''no such user''))))
       ''user-service'' =
       Some (user_descriptor\<lparr>status := ''healthy'', lastHealthCheck := Some ''T2''\<rparr>)"
    by (simp add: readings_def)
  from 1 2 3 show ?thesis by simp
qed

end
